theory Spec2Isabelle
  imports Main "HOL-Library.Sublist"
begin

section \<open>The notebook server application (notebookapp.py)\<close>

subsection \<open>Module constants\<close>

definition LOCALHOST :: string where
  "LOCALHOST = ''127.0.0.1''"

text \<open>The flags that are specific to the frontend; the source binds the empty list.\<close>

definition notebook_flags :: "string list" where
  "notebook_flags = []"

text \<open>The class attribute \<open>name\<close> of \<open>IPythonNotebookApp\<close>.\<close>

definition app_name :: string where
  "app_name = ''ipython-notebook''"

subsection \<open>The application object\<close>

datatype log_level = DEBUG | INFO | WARN | ERROR | CRITICAL

text \<open>
  The exceptions that can leave \<open>parse_command_line\<close>: \<open>ValueError\<close> from
  \<open>list.remove\<close>, and \<open>SystemExit\<close> or a configuration error from the superclass
  method.
\<close>

datatype py_error = ValueError | SystemExit | ConfigError

type_synonym addr = nat

text \<open>
  \<open>httpserver.HTTPServer(web_app, ssl_options=...)\<close> followed by \<open>listen(port, ip)\<close>:
  the server object keeps the SSL option dictionary it was built with (\<open>None\<close> for a
  plain-text server) and, once listening, the port and address it is bound to.
\<close>

record http_server_obj =
  ssl_options :: "(string \<rightharpoonup> string) option"
  listening :: "(int \<times> string) option"

text \<open>
  The traits of \<open>IPythonNotebookApp\<close> that the file reads or writes, the records written
  to \<open>self.log\<close>, and the store of Python list objects: \<open>heap\<close> gives the contents of
  the list object at each address, \<open>next_addr\<close> is the first address not yet allocated.
  \<open>kernel_argv\<close> holds the address of a list object, as the attribute holds a reference.
\<close>

record app_state =
  ip :: string
  port :: int
  certfile :: string
  keyfile :: string
  kernel_argv :: addr
  log :: "(log_level \<times> string) list"
  http_server :: "http_server_obj option"
  heap :: "addr \<Rightarrow> string list"
  next_addr :: addr

subsection \<open>initialize\<close>

definition insecure_warning :: string where
  "insecure_warning =
     ''WARNING: the notebook server is listening on all IP addresses '' @
     ''but not using any encryption or authentication. This is highly '' @
     ''insecure and not recommended.''"

text \<open>
  Lines 209 to 214: the SSL option dictionary built from the two traits. An empty string
  is false in Python, so \<open>if self.certfile\<close> tests for a non-empty string.
\<close>

definition make_ssl_options :: "app_state \<Rightarrow> (string \<rightharpoonup> string) option" where
  "make_ssl_options st =
     (if certfile st \<noteq> [] then
        (let d = [''certfile'' \<mapsto> certfile st]
         in Some (if keyfile st \<noteq> [] then d(''keyfile'' \<mapsto> keyfile st) else d))
      else None)"

text \<open>
  The body of \<open>initialize\<close> from line 209 on, run on the application as the superclass's
  \<open>initialize\<close> and \<open>init_configurables\<close> left it: build the SSL options, create the HTTP
  server, log the warning when \<open>ssl_options is None and not self.ip\<close>, then listen.
\<close>

definition initialize :: "app_state \<Rightarrow> app_state" where
  "initialize st =
     (let opts = make_ssl_options st;
          st1 = st\<lparr>http_server := Some \<lparr>ssl_options = opts, listening = None\<rparr>\<rparr>;
          st2 = (case opts of
                   None \<Rightarrow>
                     if ip st1 = [] then st1\<lparr>log := log st1 @ [(CRITICAL, insecure_warning)]\<rparr>
                     else st1
                 | Some _ \<Rightarrow> st1)
      in st2\<lparr>http_server := Some \<lparr>ssl_options = opts, listening = Some (port st2, ip st2)\<rparr>\<rparr>)"

text \<open>What can be observed of the server once \<open>initialize\<close> has run.\<close>

definition server_ssl :: "app_state \<Rightarrow> (string \<rightharpoonup> string) option" where
  "server_ssl st = (case http_server st of None \<Rightarrow> None | Some srv \<Rightarrow> ssl_options srv)"

definition server_bound :: "app_state \<Rightarrow> (int \<times> string) option" where
  "server_bound st = (case http_server st of None \<Rightarrow> None | Some srv \<Rightarrow> listening srv)"

text \<open>The records that a step from \<open>st\<close> to \<open>st'\<close> added to the log.\<close>

definition emitted :: "app_state \<Rightarrow> app_state \<Rightarrow> (log_level \<times> string) list" where
  "emitted st st' = drop (length (log st)) (log st')"

text \<open>
  A freshly constructed application: every trait at the default value its declaration
  gives (\<open>ip = LOCALHOST\<close>, \<open>port = 8888\<close>, empty \<open>certfile\<close> and \<open>keyfile\<close>), and
  \<open>kernel_argv\<close> referring to an empty list object at address 0.
\<close>

definition default_app :: app_state where
  "default_app =
     \<lparr>ip = LOCALHOST, port = 8888, certfile = [], keyfile = [], kernel_argv = 0,
      log = [], http_server = None, heap = (\<lambda>_. []), next_addr = 1\<rparr>"

subsection \<open>Assignment to the ip trait\<close>

text \<open>
  \<open>ip\<close> is a \<open>Unicode\<close> trait. The descriptor behind it (IPython.utils.traitlets, not part
  of this file) stores an assigned value and, when the value differs from the old one,
  calls the handler \<open>_ip_changed(name, old, new)\<close> of the class. The handler of the file
  assigns the trait again, so the two functions are mutually recursive.
\<close>

function set_ip :: "app_state \<Rightarrow> string \<Rightarrow> app_state"
  and ip_changed :: "app_state \<Rightarrow> string \<Rightarrow> string \<Rightarrow> string \<Rightarrow> app_state" where
  "set_ip st new =
     (let old = ip st
      in if old \<noteq> new then ip_changed (st\<lparr>ip := new\<rparr>) ''ip'' old new else st)"
| "ip_changed st name old new = (if new = ''*'' then set_ip st [] else st)"
  by pat_completeness auto
termination
  by (relation "measure (\<lambda>x. case x of
         Inl (st, new) \<Rightarrow> if new = ''*'' then 3 else 1
       | Inr (st, name, old, new) \<Rightarrow> if new = ''*'' then 2 else (0::nat))") auto

declare set_ip.simps [simp del] ip_changed.simps [simp del]

subsection \<open>parse\_command\_line\<close>

text \<open>\<open>a.startswith(p)\<close> and \<open>a.lstrip(chars)\<close> of Python strings.\<close>

definition startswith :: "string \<Rightarrow> string \<Rightarrow> bool" where
  "startswith a p = prefix p a"

definition lstrip :: "string \<Rightarrow> string \<Rightarrow> string" where
  "lstrip a chars = dropWhile (\<lambda>c. c \<in> set chars) a"

text \<open>\<open>l.remove(a)\<close>: drops the first occurrence, raises \<open>ValueError\<close> when there is none.\<close>

definition list_remove :: "string list \<Rightarrow> string \<Rightarrow> py_error + string list" where
  "list_remove l a = (if a \<in> set l then Inr (remove1 a l) else Inl ValueError)"

text \<open>Creating a new list object with the given contents.\<close>

definition alloc :: "string list \<Rightarrow> app_state \<Rightarrow> addr \<times> app_state" where
  "alloc xs st =
     (next_addr st, st\<lparr>heap := (heap st)(next_addr st := xs), next_addr := Suc (next_addr st)\<rparr>)"

text \<open>The override appended for the kernel: \<open>"--KernelApp.parent_appname='%s'" % self.name\<close>.\<close>

definition parent_appname_arg :: string where
  "parent_appname_arg = ''--KernelApp.parent_appname='' @ [CHR 0x27] @ app_name @ [CHR 0x27]"

text \<open>
  The scrubbing loop \<open>for a in argv: ...\<close>. Python iterates over the live list object by
  index, so each round reads the list at \<open>argv\<close> from the store again; the removal
  acts on the list object that \<open>self.kernel_argv\<close> refers to.
\<close>

function scrub_loop :: "addr \<Rightarrow> nat \<Rightarrow> app_state \<Rightarrow> py_error + app_state" where
  "scrub_loop argv i st =
     (if i < length (heap st argv) then
        (let a = heap st argv ! i
         in if startswith a ''-'' \<and> lstrip a ''-'' \<in> set notebook_flags then
              (case list_remove (heap st (kernel_argv st)) a of
                 Inl e \<Rightarrow> Inl e
               | Inr l \<Rightarrow> scrub_loop argv (Suc i) (st\<lparr>heap := (heap st)(kernel_argv st := l)\<rparr>))
            else scrub_loop argv (Suc i) st)
      else Inr st)"
  by pat_completeness auto
termination
proof (relation "measure (\<lambda>(argv, i, st). length (heap st argv) - i)", goal_cases)
  case 1
  show ?case by simp
next
  case (2 argv i st a l)
  then show ?case
    by (auto simp: list_remove_def length_remove1 split: if_splits)
next
  case (3 argv i st a)
  then show ?case by simp
qed

declare scrub_loop.simps [simp del]

text \<open>
  \<open>kernel_argv\<close> is a \<open>List(Unicode)\<close> trait. The descriptor behind it, the one \<open>ip\<close> has,
  compares the assigned value with the old one, two lists being equal when their
  elements are, and stores it only when they differ; the class has no change handler
  for this trait. When the two are equal, the attribute goes on referring to the old
  list object.
\<close>

definition set_kernel_argv :: "app_state \<Rightarrow> addr \<Rightarrow> app_state" where
  "set_kernel_argv st a =
     (let old = heap st (kernel_argv st); new = heap st a
      in if old \<noteq> new then st\<lparr>kernel_argv := a\<rparr> else st)"

text \<open>
  \<open>parse_command_line(self, argv)\<close>. The call of the superclass method (IPython.config,
  not part of this file) is the parameter \<open>super\<close>: it may raise, and returns the
  application with the traits loaded from the command line. \<open>sys_argv\<close> stands for the
  contents of \<open>sys.argv\<close>; the slice \<open>sys.argv[1:]\<close> is a new list object, and so is
  \<open>list(argv)\<close>, which is then assigned to the trait. The \<open>append\<close> acts on the list
  object the trait refers to after the assignment.
\<close>

definition parse_command_line ::
  "(app_state \<Rightarrow> addr option \<Rightarrow> py_error + app_state) \<Rightarrow> string list \<Rightarrow>
     app_state \<Rightarrow> addr option \<Rightarrow> py_error + app_state" where
  "parse_command_line super sys_argv st argv =
     (case super st argv of
        Inl e \<Rightarrow> Inl e
      | Inr st1 \<Rightarrow>
          (let (argv', st2) = (case argv of None \<Rightarrow> alloc (drop 1 sys_argv) st1
                                          | Some a \<Rightarrow> (a, st1));
               (k, st3) = alloc (heap st2 argv') st2;
               st4 = set_kernel_argv st3 k;
               st5 = st4\<lparr>heap := (heap st4)
                        (kernel_argv st4 := heap st4 (kernel_argv st4) @ [parent_appname_arg])\<rparr>
           in scrub_loop argv' 0 st5))"

section \<open>The URL router of the web application\<close>

subsection \<open>Regular expressions\<close>

text \<open>
  The URL patterns are Python regular expressions over byte strings. They use literal
  text, \<open>\w+\<close>, alternation and named groups \<open>(?P<name>...)\<close>, and nothing else. Without
  the LOCALE or UNICODE flag, \<open>\w\<close> on a Python 2 byte string is the class
  \<open>[a-zA-Z0-9_]\<close>.
\<close>

definition word_chars :: string where
  "word_chars = ''abcdefghijklmnopqrstuvwxyzABCDEFGHIJKLMNOPQRSTUVWXYZ0123456789_''"

definition is_word :: "char \<Rightarrow> bool" where
  "is_word c = (c \<in> set word_chars)"

datatype rx = Lit string | WordPlus | Alt rx rx | Seq rx rx | Group string rx

text \<open>The keyword arguments of a call, and the group dictionary of a match, in order.\<close>

type_synonym kwargs = "(string \<times> string) list"

text \<open>
  The backtracking matcher of \<open>re\<close>: \<open>rx_run r s g\<close> lists, in the order in which the
  engine tries them, the ways in which \<open>r\<close> can match at the start of \<open>s\<close>, each as the
  unread rest of \<open>s\<close> with the groups closed so far. \<open>\w+\<close> is greedy: the longest run of
  word characters comes first, then the shorter ones. An alternation tries its left
  branch first. A group records the text it spans.
\<close>

fun rx_run :: "rx \<Rightarrow> string \<Rightarrow> kwargs \<Rightarrow> (string \<times> kwargs) list" where
  "rx_run (Lit l) s g = (if prefix l s then [(drop (length l) s, g)] else [])"
| "rx_run WordPlus s g =
     map (\<lambda>k. (drop k s, g)) (rev [1 ..< Suc (length (takeWhile is_word s))])"
| "rx_run (Alt a b) s g = rx_run a s g @ rx_run b s g"
| "rx_run (Seq a b) s g = concat (map (\<lambda>(s', g'). rx_run b s' g') (rx_run a s g))"
| "rx_run (Group n a) s g =
     map (\<lambda>(s', g'). (s', g' @ [(n, take (length s - length s') s)])) (rx_run a s g)"

text \<open>
  \<open>web.Application\<close> (Tornado) wraps every pattern of the handler list in a \<open>URLSpec\<close>,
  which appends \<open>$\<close> to a pattern that does not end in one and compiles it; a request
  is given to the first spec whose \<open>regex.match(request.path)\<close> succeeds. \<open>match\<close>
  anchors at the start of the path. \<open>$\<close>, in Python, matches at the end of the string
  and also just before a line feed that is the last character of the string.
  Since \<open>static_path\<close> is set, Tornado puts three routes for static files in front of
  the list (\<open>/static/...\<close>, \<open>/favicon.ico\<close>, \<open>/robots.txt\<close>); no path they match
  begins with \<open>/kernels\<close>, and they are left out here.
\<close>

definition at_end :: "string \<Rightarrow> bool" where
  "at_end s = (s = [] \<or> s = [CHR 0x0A])"

definition url_match :: "rx \<Rightarrow> string \<Rightarrow> kwargs option" where
  "url_match r path =
     (case filter (\<lambda>(rest, g). at_end rest) (rx_run r path []) of
        [] \<Rightarrow> None
      | (rest, g) # _ \<Rightarrow> Some g)"

text \<open>A string matches a pattern as a whole: some way of matching reads all of it.\<close>

definition fullmatch :: "rx \<Rightarrow> string \<Rightarrow> bool" where
  "fullmatch r s = list_ex (\<lambda>(rest, g). rest = []) (rx_run r s [])"

subsection \<open>The patterns of the module\<close>

text \<open>\<open>\w+-\w+-\w+-\w+-\w+\<close>, the body of both identifier patterns.\<close>

definition id_body :: rx where
  "id_body = Seq WordPlus (Seq (Lit ''-'') (Seq WordPlus (Seq (Lit ''-'')
     (Seq WordPlus (Seq (Lit ''-'') (Seq WordPlus (Seq (Lit ''-'') WordPlus)))))))"

text \<open>\<open>_kernel_id_regex = r"(?P<kernel_id>\w+-\w+-\w+-\w+-\w+)"\<close>\<close>

definition kernel_id_regex :: rx where
  "kernel_id_regex = Group ''kernel_id'' id_body"

text \<open>\<open>_kernel_action_regex = r"(?P<action>restart|interrupt)"\<close>\<close>

definition kernel_action_regex :: rx where
  "kernel_action_regex = Group ''action'' (Alt (Lit ''restart'') (Lit ''interrupt''))"

text \<open>\<open>_notebook_id_regex = r"(?P<notebook_id>\w+-\w+-\w+-\w+-\w+)"\<close>\<close>

definition notebook_id_regex :: rx where
  "notebook_id_regex = Group ''notebook_id'' id_body"

subsection \<open>The handler list and the dispatch\<close>

datatype handler = NBBrowserHandler | NewHandler | NamedNotebookHandler
  | MainKernelHandler | KernelHandler | KernelActionHandler | ZMQStreamHandler
  | NotebookRootHandler | NotebookHandler | RSTHandler

text \<open>
  The list \<open>handlers\<close> of \<open>NotebookWebApplication.__init__\<close>, in its order: the pattern
  (with the identifier patterns substituted for \<open>%s\<close>), the handler class, and the
  dictionary of extra arguments the handler is constructed with (empty where the tuple
  has two components).
\<close>

definition handlers :: "(rx \<times> handler \<times> kwargs) list" where
  "handlers =
    [(Lit ''/'', NBBrowserHandler, []),
     (Lit ''/new'', NewHandler, []),
     (Seq (Lit ''/'') notebook_id_regex, NamedNotebookHandler, []),
     (Lit ''/kernels'', MainKernelHandler, []),
     (Seq (Lit ''/kernels/'') kernel_id_regex, KernelHandler, []),
     (Seq (Lit ''/kernels/'') (Seq kernel_id_regex (Seq (Lit ''/'') kernel_action_regex)),
        KernelActionHandler, []),
     (Seq (Lit ''/kernels/'') (Seq kernel_id_regex (Lit ''/iopub'')),
        ZMQStreamHandler, [(''stream_name'', ''iopub'')]),
     (Seq (Lit ''/kernels/'') (Seq kernel_id_regex (Lit ''/shell'')),
        ZMQStreamHandler, [(''stream_name'', ''shell'')]),
     (Lit ''/notebooks'', NotebookRootHandler, []),
     (Seq (Lit ''/notebooks/'') notebook_id_regex, NotebookHandler, []),
     (Lit ''/rstservice/render'', RSTHandler, [])]"

text \<open>
  The first spec that matches decides: the result is its handler class, its extra
  arguments, and the named groups of the match, which are passed to the handler's
  method. \<open>None\<close> stands for no match (Tornado then answers 404). The groups are
  URL-unquoted before they are passed; neither identifiers nor actions can hold a
  \<open>%\<close>, so unquoting leaves them as they are.
\<close>

fun find_handler ::
  "(rx \<times> handler \<times> kwargs) list \<Rightarrow> string \<Rightarrow> (handler \<times> kwargs \<times> kwargs) option" where
  "find_handler [] path = None"
| "find_handler ((r, h, init) # specs) path =
     (case url_match r path of
        Some g \<Rightarrow> Some (h, init, g)
      | None \<Rightarrow> find_handler specs path)"

definition dispatch :: "string \<Rightarrow> (handler \<times> kwargs \<times> kwargs) option" where
  "dispatch path = find_handler handlers path"

text \<open>The five routes of the kernel family, entries four to eight of the list.\<close>

definition kernel_routes :: "(rx \<times> handler \<times> kwargs) list" where
  "kernel_routes = take 5 (drop 3 handlers)"

section \<open>Notions of the spec\<close>

text \<open>
  The spec speaks of a server "bound to a non-loopback address". An address is taken to
  be a loopback address when it is \<open>localhost\<close>, the IPv6 loopback \<open>::1\<close>, or in the IPv4
  block 127.0.0.0/8; the empty string (all interfaces) is not one.
\<close>

definition spec_loopback :: "string \<Rightarrow> bool" where
  "spec_loopback a = (a = ''localhost'' \<or> a = ''::1'' \<or> prefix ''127.'' a)"

text \<open>
  The spec calls a kernel identity "UUID-shaped": the standard text form of a UUID,
  five groups of 8, 4, 4, 4 and 12 hexadecimal digits separated by hyphens.
\<close>

definition is_hex :: "char \<Rightarrow> bool" where
  "is_hex c = (c \<in> set ''0123456789abcdefABCDEF'')"

definition hex_run :: "nat \<Rightarrow> string \<Rightarrow> bool" where
  "hex_run n u = (length u = n \<and> list_all is_hex u)"

definition spec_uuid :: "string \<Rightarrow> bool" where
  "spec_uuid s =
     (let a = take 8 s; b = take 4 (drop 9 s); c = take 4 (drop 14 s);
          d = take 4 (drop 19 s); e = drop 24 s
      in s = a @ ''-'' @ b @ ''-'' @ c @ ''-'' @ d @ ''-'' @ e \<and>
         hex_run 8 a \<and> hex_run 4 b \<and> hex_run 4 c \<and> hex_run 4 d \<and> hex_run 12 e)"

section \<open>Kernel lifecycle and stream bridges\<close>

text \<open>
  The kernel managers and the request handlers that the application wires together
  (\<open>kernelmanager.py\<close>, \<open>handlers.py\<close>) are not part of the file. What follows is the
  system the spec describes in its sections 3 and 4: the registry of live kernels, the
  routing table from notebooks to kernels, and the bridges between client connections
  and kernels. Each operation is one atomic step; the staleness notification of a
  stopped kernel reaches its bridges within the step that stops it.
\<close>

text \<open>Modelled from the spec: the opaque identifiers of section 3. A KernelIdentity
  is a number, issued in order; a NotebookIdentity is a string; a client connection is
  numbered in the order of its opening.\<close>

type_synonym kernel_id = nat

type_synonym notebook_id = string

type_synonym conn = nat

text \<open>Modelled from the spec: the data model of section 3, which the file does not hold:
  \<open>Channel\<close>, enumerated Control and Broadcast.\<close>

datatype channel = Control | Broadcast

text \<open>Modelled from the spec: the states of a Bridge (section 4.3),
  \<open>Attaching -> Active -> {Detached | Stale | Errored}\<close>.\<close>

datatype bridge_state = Attaching | Active | Detached | Stale | Errored

text \<open>Modelled from the spec: the lifecycle errors of the taxonomy of section 7.\<close>

datatype reg_error = LaunchError | UnknownKernel | UnknownNotebook

text \<open>Modelled from the spec: a Bridge, the binding of a client connection to a kernel
  identity and a channel (section 3), with its state.\<close>

record bridge =
  b_kernel :: kernel_id
  b_channel :: channel
  b_state :: bridge_state

text \<open>Modelled from the spec: the shared state of the subsystem. \<open>live\<close> is the set of
  live kernel identities of the KernelRegistry, \<open>issued\<close> counts the identities issued
  so far (the next fresh one), \<open>routing\<close> holds the RoutingEntries, \<open>bridges\<close> the
  Bridge of each client connection, \<open>next_conn\<close> the next connection to be opened.\<close>

record routing_system =
  live :: "kernel_id set"
  issued :: nat
  routing :: "(notebook_id \<times> kernel_id) list"
  bridges :: "conn \<Rightarrow> bridge option"
  next_conn :: conn

text \<open>Modelled from the spec: the state before any operation, with no kernel, no entry
  and no connection.\<close>

definition init_system :: routing_system where
  "init_system = \<lparr>live = {}, issued = 0, routing = [], bridges = (\<lambda>_. None), next_conn = 0\<rparr>"

text \<open>Modelled from the spec: the terminal states of a Bridge (section 4.3: Detached,
  Stale and Errored end the life of a Bridge).\<close>

definition terminal :: "bridge_state \<Rightarrow> bool" where
  "terminal st = (st = Detached \<or> st = Stale \<or> st = Errored)"

text \<open>Modelled from the spec: \<open>KernelRegistry.start\<close> (section 4.1) registers the new
  process under a fresh identity, or fails with \<open>LaunchError\<close> and registers nothing.
  Whether the launch succeeds is the argument \<open>launched\<close>.\<close>

definition start :: "bool \<Rightarrow> routing_system \<Rightarrow> (reg_error + kernel_id) \<times> routing_system" where
  "start launched s =
     (if launched then
        (Inr (issued s), s\<lparr>live := insert (issued s) (live s), issued := Suc (issued s)\<rparr>)
      else (Inl LaunchError, s))"

text \<open>Modelled from the spec: staleness (section 4.3). When a kernel identity becomes
  invalid, all its Bridges that are not yet in a terminal state become Stale.\<close>

definition mark_stale :: "kernel_id \<Rightarrow> (conn \<Rightarrow> bridge option) \<Rightarrow> conn \<Rightarrow> bridge option" where
  "mark_stale k bs =
     (\<lambda>c. case bs c of
             None \<Rightarrow> None
           | Some b \<Rightarrow>
               if b_kernel b = k \<and> \<not> terminal (b_state b) then Some (b\<lparr>b_state := Stale\<rparr>)
               else Some b)"

text \<open>Modelled from the spec: \<open>KernelRegistry.stop\<close> (section 4.1) removes the identity
  and is a no-op on an identity that is not live; the Bridges of the stopped kernel
  become Stale (sections 4.3 and 7).\<close>

definition stop :: "kernel_id \<Rightarrow> routing_system \<Rightarrow> routing_system" where
  "stop k s =
     (if k \<in> live s then s\<lparr>live := live s - {k}, bridges := mark_stale k (bridges s)\<rparr> else s)"

text \<open>Modelled from the spec: \<open>KernelRegistry.interrupt\<close> (section 4.1) leaves identity
  and endpoints as they are and fails with \<open>UnknownKernel\<close> on an identity that is not
  live.\<close>

definition interrupt :: "kernel_id \<Rightarrow> routing_system \<Rightarrow> (reg_error + unit) \<times> routing_system" where
  "interrupt k s = (if k \<in> live s then (Inr (), s) else (Inl UnknownKernel, s))"

text \<open>Modelled from the spec: removing the RoutingEntry of a notebook.\<close>

definition unbind ::
  "notebook_id \<Rightarrow> (notebook_id \<times> kernel_id) list \<Rightarrow> (notebook_id \<times> kernel_id) list" where
  "unbind nb r = filter (\<lambda>(n, k). n \<noteq> nb) r"

text \<open>Modelled from the spec: \<open>RoutingTable.resolve\<close> (section 4.2) returns the current
  mapping and creates a kernel through \<open>start\<close> when there is none.\<close>

definition resolve ::
  "notebook_id \<Rightarrow> bool \<Rightarrow> routing_system \<Rightarrow> (reg_error + kernel_id) \<times> routing_system" where
  "resolve nb launched s =
     (case map_of (routing s) nb of
        Some k \<Rightarrow> (Inr k, s)
      | None \<Rightarrow>
          (case start launched s of
             (Inl e, s1) \<Rightarrow> (Inl e, s1)
           | (Inr k, s1) \<Rightarrow> (Inr k, s1\<lparr>routing := (nb, k) # routing s1\<rparr>)))"

text \<open>Modelled from the spec: \<open>RoutingTable.rebind\<close> (section 4.2) stops the old kernel
  if there is one, starts a new one, replaces the entry and returns the new identity.\<close>

definition rebind ::
  "notebook_id \<Rightarrow> bool \<Rightarrow> routing_system \<Rightarrow> (reg_error + kernel_id) \<times> routing_system" where
  "rebind nb launched s =
     (let s0 = (case map_of (routing s) nb of
                  Some k \<Rightarrow> (stop k s)\<lparr>routing := unbind nb (routing s)\<rparr>
                | None \<Rightarrow> s)
      in case start launched s0 of
           (Inl e, s1) \<Rightarrow> (Inl e, s1)
         | (Inr k, s1) \<Rightarrow> (Inr k, s1\<lparr>routing := (nb, k) # routing s1\<rparr>))"

text \<open>Modelled from the spec: \<open>RoutingTable.release\<close> (section 4.2) stops the bound
  kernel and removes the entry; a notebook never resolved is a not-found condition
  (section 7).\<close>

definition release :: "notebook_id \<Rightarrow> routing_system \<Rightarrow> (reg_error + unit) \<times> routing_system" where
  "release nb s =
     (case map_of (routing s) nb of
        None \<Rightarrow> (Inl UnknownNotebook, s)
      | Some k \<Rightarrow> (Inr (), (stop k s)\<lparr>routing := unbind nb (routing s)\<rparr>))"

text \<open>Modelled from the spec: \<open>ActionDispatcher.restart\<close> (section 4.5) is a \<open>rebind\<close> of
  the notebook whose entry is the kernel, or, for a kernel without a notebook, stop
  and start through the registry; \<open>UnknownKernel\<close> when the identity is not live.\<close>

definition restart ::
  "kernel_id \<Rightarrow> bool \<Rightarrow> routing_system \<Rightarrow> (reg_error + kernel_id) \<times> routing_system" where
  "restart k launched s =
     (if k \<notin> live s then (Inl UnknownKernel, s)
      else case find (\<lambda>nb. map_of (routing s) nb = Some k) (map fst (routing s)) of
             Some nb \<Rightarrow> rebind nb launched s
           | None \<Rightarrow> start launched (stop k s))"

text \<open>Modelled from the spec: \<open>ActionDispatcher.shutdown\<close> (section 4.5) delegates to
  \<open>stop\<close> and clears the RoutingEntry of a notebook-bound kernel.\<close>

definition shutdown :: "kernel_id \<Rightarrow> routing_system \<Rightarrow> (reg_error + unit) \<times> routing_system" where
  "shutdown k s =
     (if k \<notin> live s then (Inl UnknownKernel, s)
      else (Inr (), (stop k s)\<lparr>routing := filter (\<lambda>(n, k'). k' \<noteq> k) (routing s)\<rparr>))"

text \<open>Modelled from the spec: \<open>StreamBridge.attach\<close> (section 4.3) binds a new client
  connection to a channel of a kernel and fails with \<open>UnknownKernel\<close> when the kernel
  is not live at attach time.\<close>

definition attach ::
  "kernel_id \<Rightarrow> channel \<Rightarrow> routing_system \<Rightarrow> (reg_error + conn) \<times> routing_system" where
  "attach k ch s =
     (if k \<notin> live s then (Inl UnknownKernel, s)
      else (Inr (next_conn s),
            s\<lparr>bridges := (bridges s)
                 (next_conn s \<mapsto> \<lparr>b_kernel = k, b_channel = ch, b_state = Active\<rparr>),
              next_conn := Suc (next_conn s)\<rparr>))"

text \<open>Modelled from the spec: a Bridge that is not yet in a terminal state leaves for
  one; nothing but the Bridge changes (sections 4.3 and 7).\<close>

definition leave :: "bridge_state \<Rightarrow> conn \<Rightarrow> routing_system \<Rightarrow> routing_system" where
  "leave st c s =
     (case bridges s c of
        None \<Rightarrow> s
      | Some b \<Rightarrow>
          if terminal (b_state b) then s
          else s\<lparr>bridges := (bridges s)(c \<mapsto> b\<lparr>b_state := st\<rparr>)\<rparr>)"

text \<open>Modelled from the spec: the client closes its connection; the Bridge becomes
  Detached (section 4.3).\<close>

definition close_connection :: "conn \<Rightarrow> routing_system \<Rightarrow> routing_system" where
  "close_connection c s = leave Detached c s"

text \<open>Modelled from the spec: a \<open>StreamProtocolError\<close> on a connection; the Bridge
  becomes Errored (section 7).\<close>

definition protocol_error :: "conn \<Rightarrow> routing_system \<Rightarrow> routing_system" where
  "protocol_error c s = leave Errored c s"

text \<open>Modelled from the spec: the inbound action surface of section 6 and the events
  on a connection, as the steps of the system.\<close>

datatype event =
    Resolve notebook_id bool
  | Rebind notebook_id bool
  | Release notebook_id
  | CreateStandalone bool
  | Restart kernel_id bool
  | Interrupt kernel_id
  | Shutdown kernel_id
  | Attach kernel_id channel
  | CloseConnection conn
  | ProtocolError conn

text \<open>Modelled from the spec: the state after one operation.\<close>

fun step :: "routing_system \<Rightarrow> event \<Rightarrow> routing_system" where
  "step s (Resolve nb l) = snd (resolve nb l s)"
| "step s (Rebind nb l) = snd (rebind nb l s)"
| "step s (Release nb) = snd (release nb s)"
| "step s (CreateStandalone l) = snd (start l s)"
| "step s (Restart k l) = snd (restart k l s)"
| "step s (Interrupt k) = snd (interrupt k s)"
| "step s (Shutdown k) = snd (shutdown k s)"
| "step s (Attach k ch) = snd (attach k ch s)"
| "step s (CloseConnection c) = close_connection c s"
| "step s (ProtocolError c) = protocol_error c s"

text \<open>Modelled from the spec: the reachable states, each the result of a sequence of
  operations from the initial state.\<close>

definition run :: "event list \<Rightarrow> routing_system" where
  "run es = foldl step init_system es"

section \<open>Notions used in the proofs\<close>

text \<open>
  What a pattern matches, as a relation: \<open>rx_sem r u g g'\<close> holds when \<open>r\<close> matches the
  whole of \<open>u\<close> and extends the groups \<open>g\<close> to \<open>g'\<close>. The matcher is shown to list
  exactly the matches of this relation.
\<close>

fun rx_sem :: "rx \<Rightarrow> string \<Rightarrow> kwargs \<Rightarrow> kwargs \<Rightarrow> bool" where
  "rx_sem (Lit l) u g g' = (u = l \<and> g' = g)"
| "rx_sem WordPlus u g g' = (u \<noteq> [] \<and> (\<forall>c \<in> set u. is_word c) \<and> g' = g)"
| "rx_sem (Alt a b) u g g' = (rx_sem a u g g' \<or> rx_sem b u g g')"
| "rx_sem (Seq a b) u g g' =
     (\<exists>u1 u2 g1. u = u1 @ u2 \<and> rx_sem a u1 g g1 \<and> rx_sem b u2 g1 g')"
| "rx_sem (Group n a) u g g' = (\<exists>g1. rx_sem a u g g1 \<and> g' = g1 @ [(n, u)])"

text \<open>A non-empty run of word characters, and the strings the identifier patterns match.\<close>

definition word_run :: "string \<Rightarrow> bool" where
  "word_run u = (u \<noteq> [] \<and> (\<forall>c \<in> set u. is_word c))"

definition id_shape :: "string \<Rightarrow> bool" where
  "id_shape k = (\<exists>a b c d e. k = a @ ''-'' @ b @ ''-'' @ c @ ''-'' @ d @ ''-'' @ e \<and>
     word_run a \<and> word_run b \<and> word_run c \<and> word_run d \<and> word_run e)"

text \<open>
  The characters an identifier can hold. What follows an identifier in a path of the
  kernel family is empty or begins with a character that is not one of them; so the
  identifier and the tail of such a path are determined by the path.
\<close>

definition idchar :: "char \<Rightarrow> bool" where
  "idchar c = (is_word c \<or> c = CHR ''-'')"

definition sep_tail :: "string \<Rightarrow> bool" where
  "sep_tail t = (t = [] \<or> \<not> idchar (hd t))"

definition route_tail :: "string \<Rightarrow> string" where
  "route_tail p = dropWhile idchar (drop 9 p)"

text \<open>Names for the patterns of the five kernel routes.\<close>

definition route_kernels :: rx where
  "route_kernels = Lit ''/kernels''"

definition route_kernel :: rx where
  "route_kernel = Seq (Lit ''/kernels/'') kernel_id_regex"

definition route_action :: rx where
  "route_action =
     Seq (Lit ''/kernels/'') (Seq kernel_id_regex (Seq (Lit ''/'') kernel_action_regex))"

definition route_iopub :: rx where
  "route_iopub = Seq (Lit ''/kernels/'') (Seq kernel_id_regex (Lit ''/iopub''))"

definition route_shell :: rx where
  "route_shell = Seq (Lit ''/kernels/'') (Seq kernel_id_regex (Lit ''/shell''))"

text \<open>
  A path determines which of the five kernel routes can match it: the number of the
  route, counted from 0, or 5 when none can.
\<close>

definition kclass :: "string \<Rightarrow> nat" where
  "kclass p =
     (if \<not> prefix ''/kernels/'' p then 0
      else if at_end (route_tail p) then 1
      else if prefix ''/restart'' (route_tail p) \<or> prefix ''/interrupt'' (route_tail p) then 2
      else if prefix ''/iopub'' (route_tail p) then 3
      else if prefix ''/shell'' (route_tail p) then 4
      else 5)"

definition kpath :: "string \<Rightarrow> bool" where
  "kpath p = (\<exists>q. p = ''/kernels'' @ q \<and> sep_tail q)"

text \<open>
  Two invariants of the kernel and bridge system: a bridge whose kernel is not live is
  in a terminal state; and every identity that is live or routed has been issued.
\<close>

definition bridges_fenced :: "routing_system \<Rightarrow> bool" where
  "bridges_fenced s =
     (\<forall>c b. bridges s c = Some b \<longrightarrow> b_kernel b \<notin> live s \<longrightarrow> terminal (b_state b))"

definition ids_issued :: "routing_system \<Rightarrow> bool" where
  "ids_issued s = (\<forall>k \<in> live s \<union> snd ` set (routing s). k < issued s)"

section \<open>Properties of initialize\<close>

lemma initialize_ssl: "server_ssl (initialize st) = make_ssl_options st"
  by (simp add: initialize_def server_ssl_def Let_def split: option.split)

lemma initialize_log:
  "log (initialize st) =
     (if certfile st = [] \<and> ip st = [] then log st @ [(CRITICAL, insecure_warning)] else log st)"
  by (simp add: initialize_def make_ssl_options_def Let_def)

lemma initialize_emitted:
  "emitted st (initialize st) =
     (if certfile st = [] \<and> ip st = [] then [(CRITICAL, insecure_warning)] else [])"
  by (simp add: emitted_def initialize_log)

lemma initialize_bound: "server_bound (initialize st) = Some (port st, ip st)"
  by (simp add: initialize_def server_bound_def Let_def split: option.split)

text \<open>
  Claim C1, as the spec states it: \<open>initialize\<close> logs the critical warning if and only if
  no certificate file is configured and the server is bound to a non-loopback address.
  This fails for a server bound to one particular non-loopback address without a
  certificate: nothing is logged.
\<close>

theorem warning_non_loopback_counterexample:
  "\<not> ((CRITICAL, insecure_warning) \<in> set (emitted (default_app\<lparr>ip := ''192.168.1.5''\<rparr>)
           (initialize (default_app\<lparr>ip := ''192.168.1.5''\<rparr>)))
       \<longleftrightarrow> certfile (default_app\<lparr>ip := ''192.168.1.5''\<rparr>) = [] \<and>
           \<not> spec_loopback (ip (default_app\<lparr>ip := ''192.168.1.5''\<rparr>)))"
  by (simp add: initialize_emitted default_app_def spec_loopback_def)

text \<open>
  Claim C1, amended: \<open>initialize\<close> logs the critical warning, once, if and only if no
  certificate file is configured and \<open>ip\<close> is the empty string, that is, the server
  listens on all interfaces; with a certificate file, or with any non-empty \<open>ip\<close>
  (loopback or not), it logs nothing.
\<close>

theorem warning_iff_all_interfaces:
  "((CRITICAL, insecure_warning) \<in> set (emitted st (initialize st))
      \<longleftrightarrow> certfile st = [] \<and> ip st = [])
   \<and> (certfile st \<noteq> [] \<or> ip st \<noteq> [] \<longrightarrow> emitted st (initialize st) = [])
   \<and> (certfile st = [] \<and> ip st = [] \<longrightarrow>
        emitted st (initialize st) = [(CRITICAL, insecure_warning)])"
  by (simp add: initialize_emitted)

theorem warning_iff_all_interfaces_witness:
  "certfile (default_app\<lparr>ip := []\<rparr>) = [] \<and> ip (default_app\<lparr>ip := []\<rparr>) = [] \<and>
   emitted (default_app\<lparr>ip := []\<rparr>) (initialize (default_app\<lparr>ip := []\<rparr>))
     = [(CRITICAL, insecure_warning)] \<and>
   ip default_app \<noteq> [] \<and>
   emitted default_app (initialize default_app) = []"
  using warning_iff_all_interfaces [of "default_app\<lparr>ip := []\<rparr>"]
    warning_iff_all_interfaces [of default_app]
  by (simp add: default_app_def LOCALHOST_def)

text \<open>
  Claim C9. The SSL options handed to the HTTP server hold the private-key file only
  when both \<open>certfile\<close> and \<open>keyfile\<close> are non-empty; with an empty \<open>certfile\<close> the options
  are \<open>None\<close> whatever \<open>keyfile\<close> is, so a key file without a certificate gives a
  plain-text server.
\<close>

theorem ssl_options_keyfile:
  "(certfile st = [] \<longrightarrow> server_ssl (initialize st) = None) \<and>
   (certfile st \<noteq> [] \<longrightarrow>
      (\<exists>d. server_ssl (initialize st) = Some d \<and> d ''certfile'' = Some (certfile st) \<and>
           (d ''keyfile'' \<noteq> None \<longleftrightarrow> keyfile st \<noteq> []) \<and>
           (keyfile st \<noteq> [] \<longrightarrow> d ''keyfile'' = Some (keyfile st))))"
  by (simp add: initialize_ssl make_ssl_options_def Let_def)

theorem ssl_options_keyfile_witness:
  "certfile (default_app\<lparr>keyfile := ''key.pem''\<rparr>) = [] \<and>
   server_ssl (initialize (default_app\<lparr>keyfile := ''key.pem''\<rparr>)) = None \<and>
   certfile (default_app\<lparr>certfile := ''cert.pem'', keyfile := ''key.pem''\<rparr>) \<noteq> [] \<and>
   keyfile (default_app\<lparr>certfile := ''cert.pem'', keyfile := ''key.pem''\<rparr>) \<noteq> [] \<and>
   (\<exists>d. server_ssl (initialize (default_app\<lparr>certfile := ''cert.pem'', keyfile := ''key.pem''\<rparr>))
          = Some d \<and> d ''keyfile'' = Some ''key.pem'')"
  using ssl_options_keyfile [of "default_app\<lparr>keyfile := ''key.pem''\<rparr>"]
    ssl_options_keyfile [of "default_app\<lparr>certfile := ''cert.pem'', keyfile := ''key.pem''\<rparr>"]
  by (auto simp: default_app_def)

section \<open>Properties of the ip trait\<close>

lemma set_ip_eq:
  "set_ip st v = (if ip st = v then st else if v = ''*'' then st\<lparr>ip := []\<rparr> else st\<lparr>ip := v\<rparr>)"
  by (simp add: set_ip.simps [of st v] ip_changed.simps set_ip.simps [of _ "[]"] Let_def)

lemma ip_set_ip: "ip st \<noteq> ''*'' \<Longrightarrow> ip (set_ip st v) = (if v = ''*'' then [] else v)"
  by (simp add: set_ip_eq)

lemma ip_foldl_set_ip: "ip st \<noteq> ''*'' \<Longrightarrow> ip (foldl set_ip st vs) \<noteq> ''*''"
proof (induction vs arbitrary: st)
  case Nil
  then show ?case by simp
next
  case (Cons v vs)
  from Cons.prems have "ip (set_ip st v) \<noteq> ''*''"
    by (simp add: ip_set_ip)
  then show ?case
    using Cons.IH by simp
qed

text \<open>
  Claim C10. The \<open>ip\<close> trait never holds \<open>'*'\<close> once an assignment has completed: after any
  sequence of assignments to a fresh application the value is not \<open>'*'\<close>; assigning
  \<open>'*'\<close> leaves the empty string; and \<open>initialize\<close>, the consumer, then listens on the
  empty string and tests the empty string in its warning condition.
\<close>

theorem ip_never_star:
  "ip (foldl set_ip default_app vs) \<noteq> ''*'' \<and>
   ip (set_ip (foldl set_ip default_app vs) ''*'') = [] \<and>
   server_bound (initialize (set_ip (foldl set_ip default_app vs) ''*''))
     = Some (port (set_ip (foldl set_ip default_app vs) ''*''), []) \<and>
   ((CRITICAL, insecure_warning) \<in> set (emitted (set_ip (foldl set_ip default_app vs) ''*'')
        (initialize (set_ip (foldl set_ip default_app vs) ''*'')))
      \<longleftrightarrow> certfile (set_ip (foldl set_ip default_app vs) ''*'') = [])"
proof -
  have d: "ip default_app \<noteq> ''*''"
    by (simp add: default_app_def LOCALHOST_def)
  have a: "ip (foldl set_ip default_app vs) \<noteq> ''*''"
    using d by (rule ip_foldl_set_ip)
  have b: "ip (set_ip (foldl set_ip default_app vs) ''*'') = []"
    using a by (simp add: ip_set_ip)
  show ?thesis
    using a b by (simp add: initialize_bound initialize_emitted)
qed

theorem ip_never_star_witness:
  "ip (foldl set_ip default_app [''*'', ''10.0.0.1'', ''*'']) = []"
  using ip_never_star [of "[''*'', ''10.0.0.1'']"]
  by simp

section \<open>Properties of parse\_command\_line\<close>

text \<open>With no frontend-specific flag, no round of the loop changes anything.\<close>

lemma scrub_loop_no_flags: "scrub_loop argv i st = Inr st"
proof (induction "length (heap st argv) - i" arbitrary: i)
  case 0
  then show ?case
    by (simp add: scrub_loop.simps [of argv i st])
next
  case (Suc n)
  then have "n = length (heap st argv) - Suc i"
    by simp
  then have "scrub_loop argv (Suc i) st = Inr st"
    by (rule Suc.hyps(1))
  then show ?case
    by (simp add: scrub_loop.simps [of argv i st] notebook_flags_def)
qed

text \<open>
  The result for a given list \<open>argv\<close>, when \<open>argv\<close> and the list the trait refers to
  exist: a new list object holds the copy; the trait is rebound to it when its old
  value differs from the copy, and otherwise the old list object receives the override.
\<close>

lemma parse_command_line_Some:
  assumes "super st (Some argv) = Inr st1"
    and "argv < next_addr st1" and "kernel_argv st1 < next_addr st1"
  shows "parse_command_line super sys_argv st (Some argv) =
    Inr (if heap st1 (kernel_argv st1) \<noteq> heap st1 argv then
           st1\<lparr>heap := (heap st1)(next_addr st1 := heap st1 argv @ [parent_appname_arg]),
               next_addr := Suc (next_addr st1), kernel_argv := next_addr st1\<rparr>
         else
           st1\<lparr>heap := (heap st1)(next_addr st1 := heap st1 argv,
                   kernel_argv st1 := heap st1 argv @ [parent_appname_arg]),
               next_addr := Suc (next_addr st1)\<rparr>)"
  using assms
  by (simp add: parse_command_line_def alloc_def set_kernel_argv_def scrub_loop_no_flags Let_def)

lemma parse_command_line_None:
  assumes "super st None = Inr st1" and "kernel_argv st1 < next_addr st1"
  shows "parse_command_line super sys_argv st None =
    Inr (if heap st1 (kernel_argv st1) \<noteq> drop 1 sys_argv then
           st1\<lparr>heap := (heap st1)(next_addr st1 := drop 1 sys_argv,
                   Suc (next_addr st1) := drop 1 sys_argv @ [parent_appname_arg]),
               next_addr := Suc (Suc (next_addr st1)), kernel_argv := Suc (next_addr st1)\<rparr>
         else
           st1\<lparr>heap := (heap st1)(next_addr st1 := drop 1 sys_argv,
                   Suc (next_addr st1) := drop 1 sys_argv,
                   kernel_argv st1 := drop 1 sys_argv @ [parent_appname_arg]),
               next_addr := Suc (Suc (next_addr st1))\<rparr>)"
  using assms
  by (simp add: parse_command_line_def alloc_def set_kernel_argv_def scrub_loop_no_flags Let_def)

text \<open>
  In either case the list the trait refers to afterwards holds the elements of \<open>argv\<close>
  followed by the one override, and nothing is removed. A list \<open>argv\<close> other than the
  one the trait referred to before the call is unchanged.
\<close>

lemma kernel_argv_contents:
  assumes "super st (Some argv) = Inr st1"
    and "argv < next_addr st1" and "kernel_argv st1 < next_addr st1"
  shows "\<exists>st'. parse_command_line super sys_argv st (Some argv) = Inr st' \<and>
           heap st' (kernel_argv st') = heap st1 argv @ [parent_appname_arg] \<and>
           (argv \<noteq> kernel_argv st1 \<longrightarrow> heap st' argv = heap st1 argv)"
  using assms
  by (simp add: parse_command_line_Some)


section \<open>The matcher lists exactly the matches\<close>

lemma takeWhile_all_append:
  "\<forall>c \<in> set u. P c \<Longrightarrow> takeWhile P (u @ r) = u @ takeWhile P r"
  by (induction u) auto

lemma word_run_iff:
  "(\<exists>k. 1 \<le> k \<and> k \<le> length (takeWhile P s) \<and> rest = drop k s)
    \<longleftrightarrow> (\<exists>u. s = u @ rest \<and> u \<noteq> [] \<and> (\<forall>c \<in> set u. P c))"
proof
  assume "\<exists>k. 1 \<le> k \<and> k \<le> length (takeWhile P s) \<and> rest = drop k s"
  then obtain k where k: "1 \<le> k" "k \<le> length (takeWhile P s)" "rest = drop k s"
    by blast
  have "take k s = take k (takeWhile P s @ dropWhile P s)"
    by simp
  also have "\<dots> = take k (takeWhile P s)"
    using k(2) by (simp del: takeWhile_dropWhile_id)
  finally have t: "take k s = take k (takeWhile P s)" .
  have "set (take k s) \<subseteq> set (takeWhile P s)"
    unfolding t by (rule set_take_subset)
  then have all: "\<forall>c \<in> set (take k s). P c"
    using set_takeWhileD by fastforce
  have "length (takeWhile P s) \<le> length s"
    by (rule length_takeWhile_le)
  with k have ne: "take k s \<noteq> []"
    by auto
  have "s = take k s @ rest"
    using k(3) by simp
  with ne all show "\<exists>u. s = u @ rest \<and> u \<noteq> [] \<and> (\<forall>c \<in> set u. P c)"
    by blast
next
  assume "\<exists>u. s = u @ rest \<and> u \<noteq> [] \<and> (\<forall>c \<in> set u. P c)"
  then obtain u where u: "s = u @ rest" "u \<noteq> []" "\<forall>c \<in> set u. P c"
    by blast
  have "takeWhile P s = u @ takeWhile P rest"
    using u(1,3) by (simp add: takeWhile_all_append)
  then have "length u \<le> length (takeWhile P s)"
    by simp
  moreover have "1 \<le> length u"
    using u(2) by (cases u) auto
  moreover have "rest = drop (length u) s"
    using u(1) by simp
  ultimately show "\<exists>k. 1 \<le> k \<and> k \<le> length (takeWhile P s) \<and> rest = drop k s"
    by blast
qed

lemma rx_run_sound_complete:
  "(rest, g') \<in> set (rx_run r s g) \<longleftrightarrow> (\<exists>u. s = u @ rest \<and> rx_sem r u g g')"
proof (induction r arbitrary: s g rest g')
  case (Lit l)
  show ?case
    by (auto simp: prefix_def)
next
  case WordPlus
  have "(rest, g') \<in> set (rx_run WordPlus s g) \<longleftrightarrow>
      g' = g \<and> (\<exists>k. 1 \<le> k \<and> k \<le> length (takeWhile is_word s) \<and> rest = drop k s)"
    by (auto simp: image_iff)
  then show ?case
    unfolding word_run_iff by auto
next
  case (Alt a b)
  then show ?case
    by auto
next
  case (Seq a b)
  have "(rest, g') \<in> set (rx_run (Seq a b) s g) \<longleftrightarrow>
      (\<exists>s1 g1. (s1, g1) \<in> set (rx_run a s g) \<and> (rest, g') \<in> set (rx_run b s1 g1))"
    by auto
  also have "\<dots> \<longleftrightarrow> (\<exists>s1 g1. (\<exists>u1. s = u1 @ s1 \<and> rx_sem a u1 g g1) \<and>
      (\<exists>u2. s1 = u2 @ rest \<and> rx_sem b u2 g1 g'))"
    unfolding Seq.IH ..
  also have "\<dots> \<longleftrightarrow> (\<exists>u. s = u @ rest \<and> rx_sem (Seq a b) u g g')"
  proof
    assume "\<exists>s1 g1. (\<exists>u1. s = u1 @ s1 \<and> rx_sem a u1 g g1) \<and>
      (\<exists>u2. s1 = u2 @ rest \<and> rx_sem b u2 g1 g')"
    then obtain s1 g1 u1 u2 where
      "s = u1 @ s1" "rx_sem a u1 g g1" "s1 = u2 @ rest" "rx_sem b u2 g1 g'"
      by blast
    then have "s = (u1 @ u2) @ rest \<and> rx_sem (Seq a b) (u1 @ u2) g g'"
      by auto
    then show "\<exists>u. s = u @ rest \<and> rx_sem (Seq a b) u g g'" ..
  next
    assume "\<exists>u. s = u @ rest \<and> rx_sem (Seq a b) u g g'"
    then obtain u1 u2 g1 where
      "s = (u1 @ u2) @ rest" "rx_sem a u1 g g1" "rx_sem b u2 g1 g'"
      by auto
    then have "(\<exists>u. s = u @ (u2 @ rest) \<and> rx_sem a u g g1) \<and>
      (\<exists>u. u2 @ rest = u @ rest \<and> rx_sem b u g1 g')"
      by auto
    then show "\<exists>s1 g1. (\<exists>u1. s = u1 @ s1 \<and> rx_sem a u1 g g1) \<and>
      (\<exists>u2. s1 = u2 @ rest \<and> rx_sem b u2 g1 g')"
      by blast
  qed
  finally show ?case .
next
  case (Group n a)
  have "(rest, g') \<in> set (rx_run (Group n a) s g) \<longleftrightarrow>
      (\<exists>g1. (rest, g1) \<in> set (rx_run a s g) \<and>
            g' = g1 @ [(n, take (length s - length rest) s)])"
    by (force simp: image_iff)
  also have "\<dots> \<longleftrightarrow> (\<exists>g1. (\<exists>u. s = u @ rest \<and> rx_sem a u g g1) \<and>
            g' = g1 @ [(n, take (length s - length rest) s)])"
    unfolding Group.IH ..
  also have "\<dots> \<longleftrightarrow> (\<exists>u. s = u @ rest \<and> rx_sem (Group n a) u g g')"
    by auto
  finally show ?case .
qed

lemma url_match_Some:
  assumes "url_match r p = Some g"
  shows "\<exists>u rest. p = u @ rest \<and> at_end rest \<and> rx_sem r u [] g"
proof -
  from assms obtain rest xs where
    "filter (\<lambda>(rest, g). at_end rest) (rx_run r p []) = (rest, g) # xs"
    by (auto simp: url_match_def split: list.splits)
  then have "(rest, g) \<in> set (filter (\<lambda>(rest, g). at_end rest) (rx_run r p []))"
    by simp
  then have "(rest, g) \<in> set (rx_run r p [])" and "at_end rest"
    by auto
  then show ?thesis
    by (auto simp: rx_run_sound_complete)
qed

lemma url_match_None:
  "url_match r p = None \<longleftrightarrow> \<not> (\<exists>u rest g. p = u @ rest \<and> at_end rest \<and> rx_sem r u [] g)"
proof -
  have "url_match r p = None \<longleftrightarrow> filter (\<lambda>(rest, g). at_end rest) (rx_run r p []) = []"
    by (auto simp: url_match_def split: list.splits)
  also have "\<dots> \<longleftrightarrow> (\<forall>x \<in> set (rx_run r p []). \<not> at_end (fst x))"
    by (auto simp: filter_empty_conv)
  also have "\<dots> \<longleftrightarrow> \<not> (\<exists>rest g. (rest, g) \<in> set (rx_run r p []) \<and> at_end rest)"
    by auto
  also have "\<dots> \<longleftrightarrow> \<not> (\<exists>u rest g. p = u @ rest \<and> at_end rest \<and> rx_sem r u [] g)"
    unfolding rx_run_sound_complete by blast
  finally show ?thesis .
qed

lemma fullmatch_iff: "fullmatch r s \<longleftrightarrow> (\<exists>g. rx_sem r s [] g)"
proof -
  have "fullmatch r s \<longleftrightarrow> (\<exists>g. ([], g) \<in> set (rx_run r s []))"
    by (auto simp: fullmatch_def list_ex_iff)
  then show ?thesis
    by (simp add: rx_run_sound_complete)
qed

section \<open>What the patterns of the module match\<close>

lemma word_run_sem: "rx_sem WordPlus u g g' \<longleftrightarrow> word_run u \<and> g' = g"
  by (auto simp: word_run_def)

lemma seq_lit_sem:
  "rx_sem (Seq (Lit l) r) u g g' \<longleftrightarrow> (\<exists>v. u = l @ v \<and> rx_sem r v g g')"
  by auto

lemma seq_word_dash_sem:
  "rx_sem (Seq WordPlus (Seq (Lit ''-'') r)) u g g' \<longleftrightarrow>
     (\<exists>a v. u = a @ ''-'' @ v \<and> word_run a \<and> rx_sem r v g g')"
  by (auto simp: word_run_def)

lemma id_body_sem: "rx_sem id_body u g g' \<longleftrightarrow> id_shape u \<and> g' = g"
  unfolding id_body_def id_shape_def seq_word_dash_sem word_run_sem
  by blast

lemma kernel_id_sem:
  "rx_sem kernel_id_regex u g g' \<longleftrightarrow> id_shape u \<and> g' = g @ [(''kernel_id'', u)]"
  by (auto simp: kernel_id_regex_def id_body_sem)

lemma notebook_id_sem:
  "rx_sem notebook_id_regex u g g' \<longleftrightarrow> id_shape u \<and> g' = g @ [(''notebook_id'', u)]"
  by (auto simp: notebook_id_regex_def id_body_sem)

lemma kernel_action_sem:
  "rx_sem kernel_action_regex u g g' \<longleftrightarrow>
     (u = ''restart'' \<or> u = ''interrupt'') \<and> g' = g @ [(''action'', u)]"
  by (auto simp: kernel_action_regex_def)

lemma fullmatch_kernel_id: "fullmatch kernel_id_regex k \<longleftrightarrow> id_shape k"
  by (simp add: fullmatch_iff kernel_id_sem)

lemma id_shape_idchar: "id_shape k \<Longrightarrow> \<forall>c \<in> set k. idchar c"
  by (auto simp: id_shape_def word_run_def idchar_def)

lemma split_at_tail:
  assumes "\<forall>c \<in> set k. idchar c" and "sep_tail t"
  shows "takeWhile idchar (k @ t) = k" and "dropWhile idchar (k @ t) = t"
proof -
  have t: "takeWhile idchar t = []"
    using assms(2) by (cases t) (auto simp: sep_tail_def)
  show "takeWhile idchar (k @ t) = k"
    using assms(1) t by (simp add: takeWhile_all_append)
  have "dropWhile idchar (k @ t) = dropWhile idchar t"
    using assms(1) by (induction k) auto
  also have "\<dots> = t"
    using assms(2) by (cases t) (auto simp: sep_tail_def)
  finally show "dropWhile idchar (k @ t) = t" .
qed

lemma kernels_split:
  assumes "p = ''/kernels/'' @ k @ t" and "id_shape k" and "sep_tail t"
  shows "route_tail p = t"
  using assms split_at_tail [of k t] id_shape_idchar [of k]
  by (simp add: route_tail_def)

lemma not_idchar_slash: "\<not> idchar CHR ''/''"
  by (simp add: idchar_def is_word_def word_chars_def)

lemma not_idchar_newline: "\<not> idchar (CHR 0x0A)"
  by (simp add: idchar_def is_word_def word_chars_def)

lemma sep_tail_at_end: "at_end t \<Longrightarrow> sep_tail t"
  by (auto simp: at_end_def sep_tail_def not_idchar_newline)

lemma sep_tail_slash: "sep_tail (CHR ''/'' # t)"
  by (simp add: sep_tail_def not_idchar_slash)

lemma url_match_eqI:
  assumes "\<exists>u rest. p = u @ rest \<and> at_end rest \<and> rx_sem r u [] g"
    and "\<And>u rest g'. p = u @ rest \<Longrightarrow> at_end rest \<Longrightarrow> rx_sem r u [] g' \<Longrightarrow> g' = g"
  shows "url_match r p = Some g"
proof (cases "url_match r p")
  case None
  with url_match_None [of r p] assms(1) show ?thesis
    by blast
next
  case (Some g')
  from url_match_Some [OF Some] assms(2) have "g' = g"
    by blast
  with Some show ?thesis
    by simp
qed

lemma id_shape_dash: "id_shape k \<Longrightarrow> CHR ''-'' \<in> set k"
  by (auto simp: id_shape_def)

lemma lit_route_iff:
  "url_match (Lit l) p = Some g \<longleftrightarrow> (\<exists>rest. p = l @ rest \<and> at_end rest) \<and> g = []"
proof
  assume "url_match (Lit l) p = Some g"
  from url_match_Some [OF this] show "(\<exists>rest. p = l @ rest \<and> at_end rest) \<and> g = []"
    by auto
next
  assume "(\<exists>rest. p = l @ rest \<and> at_end rest) \<and> g = []"
  then show "url_match (Lit l) p = Some g"
    by (intro url_match_eqI) auto
qed

lemma id_route_sem:
  "(\<exists>u rest. p = u @ rest \<and> at_end rest \<and> rx_sem (Seq (Lit l) (Group n id_body)) u [] g) \<longleftrightarrow>
   (\<exists>k rest. p = l @ k @ rest \<and> id_shape k \<and> at_end rest \<and> g = [(n, k)])"
  by (auto simp: id_body_sem)

lemma id_route_iff:
  "url_match (Seq (Lit l) (Group n id_body)) p = Some g \<longleftrightarrow>
   (\<exists>k rest. p = l @ k @ rest \<and> id_shape k \<and> at_end rest \<and> g = [(n, k)])"
  (is "?L \<longleftrightarrow> ?R")
proof
  assume ?L
  from url_match_Some [OF this] show ?R
    by (simp only: id_route_sem)
next
  assume r: ?R
  show ?L
  proof (rule url_match_eqI)
    from r show "\<exists>u rest. p = u @ rest \<and> at_end rest \<and> rx_sem (Seq (Lit l) (Group n id_body)) u [] g"
      by (simp only: id_route_sem)
  next
    fix u rest g'
    assume "p = u @ rest" "at_end rest" "rx_sem (Seq (Lit l) (Group n id_body)) u [] g'"
    then have "\<exists>u rest. p = u @ rest \<and> at_end rest \<and> rx_sem (Seq (Lit l) (Group n id_body)) u [] g'"
      by blast
    then obtain k' rest' where
      k': "p = l @ k' @ rest'" "id_shape k'" "at_end rest'" "g' = [(n, k')]"
      unfolding id_route_sem by blast
    from r obtain k rest0 where
      k: "p = l @ k @ rest0" "id_shape k" "at_end rest0" "g = [(n, k)]"
      by blast
    from k(1) k'(1) have e: "k @ rest0 = k' @ rest'"
      by simp
    have "takeWhile idchar (k @ rest0) = k"
      using k(2,3) by (intro split_at_tail) (simp_all add: id_shape_idchar sep_tail_at_end)
    moreover have "takeWhile idchar (k' @ rest') = k'"
      using k'(2,3) by (intro split_at_tail) (simp_all add: id_shape_idchar sep_tail_at_end)
    ultimately have "k' = k"
      using e by simp
    with k'(4) k(4) show "g' = g"
      by simp
  qed
qed

lemma sep_tail_append: "sep_tail v \<Longrightarrow> v \<noteq> [] \<Longrightarrow> sep_tail (v @ r)"
  by (cases v) (auto simp: sep_tail_def)

lemma tail_route_sem0:
  assumes sem: "\<And>v g1 g2. rx_sem tr v g1 g2 \<longleftrightarrow> v \<in> T \<and> g2 = g1 @ G v"
  shows "rx_sem (Seq (Lit l) (Seq (Group n id_body) tr)) u [] g \<longleftrightarrow>
     (\<exists>k v. u = l @ k @ v \<and> id_shape k \<and> v \<in> T \<and> g = (n, k) # G v)"
  by (auto simp: id_body_sem sem)

lemma tail_route_sem:
  assumes sem: "\<And>v g1 g2. rx_sem tr v g1 g2 \<longleftrightarrow> v \<in> T \<and> g2 = g1 @ G v"
  shows "(\<exists>u rest. p = u @ rest \<and> at_end rest \<and>
            rx_sem (Seq (Lit l) (Seq (Group n id_body) tr)) u [] g) \<longleftrightarrow>
     (\<exists>k v rest. p = l @ k @ v @ rest \<and> id_shape k \<and> v \<in> T \<and> at_end rest \<and>
         g = (n, k) # G v)"
  (is "?A \<longleftrightarrow> ?B")
proof
  assume ?A
  then obtain u rest k v where
    "p = u @ rest" "at_end rest" "u = l @ k @ v" "id_shape k" "v \<in> T" "g = (n, k) # G v"
    unfolding tail_route_sem0 [of tr T G, OF sem] by blast
  then have "p = l @ k @ v @ rest \<and> id_shape k \<and> v \<in> T \<and> at_end rest \<and> g = (n, k) # G v"
    by simp
  then show ?B
    by blast
next
  assume ?B
  then obtain k v rest where
    b: "p = l @ k @ v @ rest" "id_shape k" "v \<in> T" "at_end rest" "g = (n, k) # G v"
    by blast
  then have "rx_sem (Seq (Lit l) (Seq (Group n id_body) tr)) (l @ k @ v) [] g"
    unfolding tail_route_sem0 [of tr T G, OF sem] by blast
  moreover have "p = (l @ k @ v) @ rest"
    using b(1) by simp
  ultimately show ?A
    using b(4) by blast
qed

lemma tail_route_iff:
  assumes sem: "\<And>v g1 g2. rx_sem tr v g1 g2 \<longleftrightarrow> v \<in> T \<and> g2 = g1 @ G v"
    and slash: "\<And>v. v \<in> T \<Longrightarrow> sep_tail v \<and> v \<noteq> []"
    and det: "\<And>v v' r r'. v \<in> T \<Longrightarrow> v' \<in> T \<Longrightarrow> at_end r \<Longrightarrow> at_end r' \<Longrightarrow>
                v @ r = v' @ r' \<Longrightarrow> v = v'"
  shows "url_match (Seq (Lit l) (Seq (Group n id_body) tr)) p = Some g \<longleftrightarrow>
     (\<exists>k v rest. p = l @ k @ v @ rest \<and> id_shape k \<and> v \<in> T \<and> at_end rest \<and>
         g = (n, k) # G v)"
  (is "?L \<longleftrightarrow> ?R")
proof
  assume ?L
  from url_match_Some [OF this] show ?R
    by (simp only: tail_route_sem [of tr T G, OF sem])
next
  assume r: ?R
  show ?L
  proof (rule url_match_eqI)
    from r show "\<exists>u rest. p = u @ rest \<and> at_end rest \<and>
        rx_sem (Seq (Lit l) (Seq (Group n id_body) tr)) u [] g"
      by (simp only: tail_route_sem [of tr T G, OF sem])
  next
    fix u rest g'
    assume "p = u @ rest" "at_end rest" "rx_sem (Seq (Lit l) (Seq (Group n id_body) tr)) u [] g'"
    then have "\<exists>u rest. p = u @ rest \<and> at_end rest \<and>
        rx_sem (Seq (Lit l) (Seq (Group n id_body) tr)) u [] g'"
      by blast
    then obtain k' v' rest' where
      k': "p = l @ k' @ v' @ rest'" "id_shape k'" "v' \<in> T" "at_end rest'" "g' = (n, k') # G v'"
      unfolding tail_route_sem [of tr T G, OF sem] by blast
    from r obtain k v rest0 where
      k: "p = l @ k @ v @ rest0" "id_shape k" "v \<in> T" "at_end rest0" "g = (n, k) # G v"
      by blast
    from k(1) k'(1) have e: "k @ (v @ rest0) = k' @ (v' @ rest')"
      by simp
    have s: "sep_tail (v @ rest0)" "sep_tail (v' @ rest')"
      using slash [OF k(3)] slash [OF k'(3)] by (simp_all add: sep_tail_append)
    note a = split_at_tail [OF id_shape_idchar [OF k(2)] s(1)]
    note b = split_at_tail [OF id_shape_idchar [OF k'(2)] s(2)]
    from a(1) b(1) e have kk: "k' = k"
      by simp
    from a(2) b(2) e have vv: "v @ rest0 = v' @ rest'"
      by simp
    from det [OF k(3) k'(3) k(4) k'(4) vv] have "v = v'" .
    with kk k'(5) k(5) show "g' = g"
      by simp
  qed
qed

section \<open>The five kernel routes\<close>

lemma route_kernels_iff:
  "url_match route_kernels p = Some g \<longleftrightarrow>
     (\<exists>rest. p = ''/kernels'' @ rest \<and> at_end rest) \<and> g = []"
  unfolding route_kernels_def by (rule lit_route_iff)

lemma route_kernel_iff:
  "url_match route_kernel p = Some g \<longleftrightarrow>
   (\<exists>k rest. p = ''/kernels/'' @ k @ rest \<and> id_shape k \<and> at_end rest \<and>
      g = [(''kernel_id'', k)])"
  unfolding route_kernel_def kernel_id_regex_def by (rule id_route_iff)

lemma action_tail_sem:
  "rx_sem (Seq (Lit ''/'') kernel_action_regex) v g1 g2 \<longleftrightarrow>
     v \<in> {''/restart'', ''/interrupt''} \<and> g2 = g1 @ [(''action'', drop 1 v)]"
  by (auto simp: kernel_action_sem)

lemma route_action_iff0:
  "url_match route_action p = Some g \<longleftrightarrow>
   (\<exists>k v rest. p = ''/kernels/'' @ k @ v @ rest \<and> id_shape k \<and>
      v \<in> {''/restart'', ''/interrupt''} \<and> at_end rest \<and>
      g = (''kernel_id'', k) # [(''action'', drop 1 v)])"
  unfolding route_action_def kernel_id_regex_def
proof (rule tail_route_iff [OF action_tail_sem])
  fix v :: string
  assume "v \<in> {''/restart'', ''/interrupt''}"
  then show "sep_tail v \<and> v \<noteq> []"
    by (auto simp: sep_tail_slash)
next
  fix v v' r r' :: string
  assume "v \<in> {''/restart'', ''/interrupt''}" "v' \<in> {''/restart'', ''/interrupt''}"
    "at_end r" "at_end r'" "v @ r = v' @ r'"
  then show "v = v'"
    by auto
qed

lemma route_action_iff:
  "url_match route_action p = Some g \<longleftrightarrow>
   (\<exists>k a rest. p = ''/kernels/'' @ k @ ''/'' @ a @ rest \<and> id_shape k \<and>
      (a = ''restart'' \<or> a = ''interrupt'') \<and> at_end rest \<and>
      g = [(''kernel_id'', k), (''action'', a)])"
  (is "?L \<longleftrightarrow> ?R")
proof
  assume ?L
  then obtain k v rest where
    *: "p = ''/kernels/'' @ k @ v @ rest" "id_shape k" "v \<in> {''/restart'', ''/interrupt''}"
      "at_end rest" "g = (''kernel_id'', k) # [(''action'', drop 1 v)]"
    unfolding route_action_iff0 by blast
  from *(3) have "v = ''/'' @ drop 1 v \<and> (drop 1 v = ''restart'' \<or> drop 1 v = ''interrupt'')"
    by auto
  with * have "p = ''/kernels/'' @ k @ ''/'' @ drop 1 v @ rest \<and> id_shape k \<and>
      (drop 1 v = ''restart'' \<or> drop 1 v = ''interrupt'') \<and> at_end rest \<and>
      g = [(''kernel_id'', k), (''action'', drop 1 v)]"
    by (metis append.assoc)
  then show ?R
    by blast
next
  assume ?R
  then obtain k a rest where
    *: "p = ''/kernels/'' @ k @ ''/'' @ a @ rest" "id_shape k" "a = ''restart'' \<or> a = ''interrupt''"
      "at_end rest" "g = [(''kernel_id'', k), (''action'', a)]"
    by blast
  then have "p = ''/kernels/'' @ k @ (''/'' @ a) @ rest \<and> id_shape k \<and>
      (''/'' @ a) \<in> {''/restart'', ''/interrupt''} \<and> at_end rest \<and>
      g = (''kernel_id'', k) # [(''action'', drop 1 (''/'' @ a))]"
    by auto
  then show ?L
    unfolding route_action_iff0 by blast
qed

lemma stream_tail_sem:
  "rx_sem (Lit s) v g1 g2 \<longleftrightarrow> v \<in> {s} \<and> g2 = g1 @ []"
  by auto

lemma route_stream_iff:
  "url_match (Seq (Lit ''/kernels/'') (Seq kernel_id_regex (Lit (CHR ''/'' # s)))) p = Some g \<longleftrightarrow>
   (\<exists>k rest. p = ''/kernels/'' @ k @ (CHR ''/'' # s) @ rest \<and> id_shape k \<and> at_end rest \<and>
      g = [(''kernel_id'', k)])"
proof -
  have "url_match (Seq (Lit ''/kernels/'') (Seq (Group ''kernel_id'' id_body) (Lit (CHR ''/'' # s)))) p
      = Some g \<longleftrightarrow>
    (\<exists>k v rest. p = ''/kernels/'' @ k @ v @ rest \<and> id_shape k \<and> v \<in> {CHR ''/'' # s} \<and>
       at_end rest \<and> g = (''kernel_id'', k) # [])"
  proof (rule tail_route_iff [OF stream_tail_sem])
    fix v :: string
    assume "v \<in> {CHR ''/'' # s}"
    then show "sep_tail v \<and> v \<noteq> []"
      by (auto simp: sep_tail_slash)
  next
    fix v v' r r' :: string
    assume "v \<in> {CHR ''/'' # s}" "v' \<in> {CHR ''/'' # s}"
    then show "v = v'"
      by simp
  qed
  then show ?thesis
    unfolding kernel_id_regex_def by simp
qed

lemma route_iopub_iff:
  "url_match route_iopub p = Some g \<longleftrightarrow>
   (\<exists>k rest. p = ''/kernels/'' @ k @ ''/iopub'' @ rest \<and> id_shape k \<and> at_end rest \<and>
      g = [(''kernel_id'', k)])"
  unfolding route_iopub_def using route_stream_iff [of "''iopub''" p g] by simp

lemma route_shell_iff:
  "url_match route_shell p = Some g \<longleftrightarrow>
   (\<exists>k rest. p = ''/kernels/'' @ k @ ''/shell'' @ rest \<and> id_shape k \<and> at_end rest \<and>
      g = [(''kernel_id'', k)])"
  unfolding route_shell_def using route_stream_iff [of "''shell''" p g] by simp

lemma handlers_routes:
  "handlers =
    [(Lit ''/'', NBBrowserHandler, []),
     (Lit ''/new'', NewHandler, []),
     (Seq (Lit ''/'') notebook_id_regex, NamedNotebookHandler, []),
     (route_kernels, MainKernelHandler, []),
     (route_kernel, KernelHandler, []),
     (route_action, KernelActionHandler, []),
     (route_iopub, ZMQStreamHandler, [(''stream_name'', ''iopub'')]),
     (route_shell, ZMQStreamHandler, [(''stream_name'', ''shell'')]),
     (Lit ''/notebooks'', NotebookRootHandler, []),
     (Seq (Lit ''/notebooks/'') notebook_id_regex, NotebookHandler, []),
     (Lit ''/rstservice/render'', RSTHandler, [])]"
  by (simp add: handlers_def route_kernels_def route_kernel_def route_action_def
      route_iopub_def route_shell_def)

text \<open>Each route that matches a path fixes the class of the path, so no two can.\<close>

lemma kclass_kernels: "url_match route_kernels p = Some g \<Longrightarrow> kclass p = 0"
  by (auto simp: route_kernels_iff kclass_def at_end_def)

lemma kclass_kernel:
  assumes "url_match route_kernel p = Some g"
  shows "kclass p = 1"
proof -
  from assms obtain k rest where
    *: "p = ''/kernels/'' @ k @ rest" "id_shape k" "at_end rest"
    unfolding route_kernel_iff by blast
  from kernels_split [OF *(1,2) sep_tail_at_end [OF *(3)]] *(1,3)
  show ?thesis
    by (simp add: kclass_def)
qed

lemma kclass_action:
  assumes "url_match route_action p = Some g"
  shows "kclass p = 2"
proof -
  from assms obtain k a rest where
    *: "p = ''/kernels/'' @ k @ ''/'' @ a @ rest" "id_shape k"
      "a = ''restart'' \<or> a = ''interrupt''"
    unfolding route_action_iff by blast
  have "sep_tail (''/'' @ a @ rest)"
    by (simp add: sep_tail_slash)
  from kernels_split [OF *(1,2) this] *(1,3)
  show ?thesis
    by (auto simp: kclass_def at_end_def)
qed

lemma kclass_iopub:
  assumes "url_match route_iopub p = Some g"
  shows "kclass p = 3"
proof -
  from assms obtain k rest where
    *: "p = ''/kernels/'' @ k @ ''/iopub'' @ rest" "id_shape k"
    unfolding route_iopub_iff by blast
  have "sep_tail (''/iopub'' @ rest)"
    by (simp add: sep_tail_slash)
  from kernels_split [OF *(1,2) this] *(1)
  show ?thesis
    by (auto simp: kclass_def at_end_def)
qed

lemma kclass_shell:
  assumes "url_match route_shell p = Some g"
  shows "kclass p = 4"
proof -
  from assms obtain k rest where
    *: "p = ''/kernels/'' @ k @ ''/shell'' @ rest" "id_shape k"
    unfolding route_shell_iff by blast
  have "sep_tail (''/shell'' @ rest)"
    by (simp add: sep_tail_slash)
  from kernels_split [OF *(1,2) this] *(1)
  show ?thesis
    by (auto simp: kclass_def at_end_def)
qed

lemma kclass_None_kernels: "kclass p \<noteq> 0 \<Longrightarrow> url_match route_kernels p = None"
  by (cases "url_match route_kernels p") (auto dest: kclass_kernels)

lemma kclass_None_kernel: "kclass p \<noteq> 1 \<Longrightarrow> url_match route_kernel p = None"
  by (cases "url_match route_kernel p") (auto dest: kclass_kernel)

lemma kclass_None_action: "kclass p \<noteq> 2 \<Longrightarrow> url_match route_action p = None"
  by (cases "url_match route_action p") (auto dest: kclass_action)

lemma kclass_None_iopub: "kclass p \<noteq> 3 \<Longrightarrow> url_match route_iopub p = None"
  by (cases "url_match route_iopub p") (auto dest: kclass_iopub)

lemma kclass_None_shell: "kclass p \<noteq> 4 \<Longrightarrow> url_match route_shell p = None"
  by (cases "url_match route_shell p") (auto dest: kclass_shell)

lemmas kclass_None =
  kclass_None_kernels kclass_None_kernel kclass_None_action kclass_None_iopub kclass_None_shell

section \<open>Dispatch over the handler list\<close>

lemma kpath_early_None:
  assumes "kpath p"
  shows "url_match (Lit ''/'') p = None" and "url_match (Lit ''/new'') p = None"
    and "url_match (Seq (Lit ''/'') notebook_id_regex) p = None"
proof -
  from assms obtain q where q: "p = ''/kernels'' @ q" "sep_tail q"
    by (auto simp: kpath_def)
  show "url_match (Lit ''/'') p = None"
  proof (cases "url_match (Lit ''/'') p")
    case (Some g)
    then show ?thesis
      using q(1) by (auto simp: lit_route_iff at_end_def)
  qed simp
  show "url_match (Lit ''/new'') p = None"
  proof (cases "url_match (Lit ''/new'') p")
    case (Some g)
    then show ?thesis
      using q(1) by (auto simp: lit_route_iff)
  qed simp
  show "url_match (Seq (Lit ''/'') notebook_id_regex) p = None"
  proof (cases "url_match (Seq (Lit ''/'') notebook_id_regex) p")
    case (Some g)
    then obtain k rest where
      k: "p = ''/'' @ k @ rest" "id_shape k" "at_end rest"
      unfolding notebook_id_regex_def id_route_iff by blast
    from k(1) q(1) have e: "k @ rest = ''kernels'' @ q"
      by simp
    have "takeWhile idchar (k @ rest) = k"
      using k(2,3) by (intro split_at_tail) (simp_all add: id_shape_idchar sep_tail_at_end)
    moreover have "takeWhile idchar (''kernels'' @ q) = ''kernels''"
      using q(2) by (intro split_at_tail) (simp_all add: idchar_def is_word_def word_chars_def)
    ultimately have "k = ''kernels''"
      using e by simp
    with id_shape_dash [OF k(2)] show ?thesis
      by simp
  qed simp
qed

lemma kpath_late_None:
  assumes "kpath p"
  shows "url_match (Lit ''/notebooks'') p = None"
    and "url_match (Seq (Lit ''/notebooks/'') notebook_id_regex) p = None"
    and "url_match (Lit ''/rstservice/render'') p = None"
proof -
  from assms obtain q where q: "p = ''/kernels'' @ q"
    by (auto simp: kpath_def)
  show "url_match (Lit ''/notebooks'') p = None"
  proof (cases "url_match (Lit ''/notebooks'') p")
    case (Some g)
    then show ?thesis
      using q(1) by (auto simp: lit_route_iff)
  qed simp
  show "url_match (Lit ''/rstservice/render'') p = None"
  proof (cases "url_match (Lit ''/rstservice/render'') p")
    case (Some g)
    then show ?thesis
      using q(1) by (auto simp: lit_route_iff)
  qed simp
  show "url_match (Seq (Lit ''/notebooks/'') notebook_id_regex) p = None"
  proof (cases "url_match (Seq (Lit ''/notebooks/'') notebook_id_regex) p")
    case (Some g)
    then show ?thesis
      using q(1) unfolding notebook_id_regex_def id_route_iff by auto
  qed simp
qed

lemma match_kpath:
  "url_match route_kernels p = Some g \<Longrightarrow> kpath p"
  "url_match route_kernel p = Some g \<Longrightarrow> kpath p"
  "url_match route_action p = Some g \<Longrightarrow> kpath p"
  "url_match route_iopub p = Some g \<Longrightarrow> kpath p"
  "url_match route_shell p = Some g \<Longrightarrow> kpath p"
proof -
  show "url_match route_kernels p = Some g \<Longrightarrow> kpath p"
    unfolding route_kernels_iff kpath_def by (auto simp: sep_tail_at_end)
  have s: "\<And>k t. p = ''/kernels/'' @ k @ t \<Longrightarrow> kpath p"
  proof -
    fix k t
    assume "p = ''/kernels/'' @ k @ t"
    then have "p = ''/kernels'' @ (CHR ''/'' # k @ t) \<and> sep_tail (CHR ''/'' # k @ t)"
      by (simp add: sep_tail_slash)
    then show "kpath p"
      unfolding kpath_def by blast
  qed
  show "url_match route_kernel p = Some g \<Longrightarrow> kpath p"
    unfolding route_kernel_iff using s by blast
  show "url_match route_action p = Some g \<Longrightarrow> kpath p"
    unfolding route_action_iff using s by blast
  show "url_match route_iopub p = Some g \<Longrightarrow> kpath p"
    unfolding route_iopub_iff using s by blast
  show "url_match route_shell p = Some g \<Longrightarrow> kpath p"
    unfolding route_shell_iff using s by blast
qed

lemma find_handler_Some:
  "find_handler hs p = Some (h, i, g) \<Longrightarrow> \<exists>r. (r, h, i) \<in> set hs \<and> url_match r p = Some g"
  by (induction hs p rule: find_handler.induct) (auto split: option.splits)

lemma dispatch_kernels:
  "url_match route_kernels p = Some g \<Longrightarrow> dispatch p = Some (MainKernelHandler, [], g)"
  by (simp add: dispatch_def handlers_routes kpath_early_None match_kpath(1))

lemma dispatch_kernel:
  "url_match route_kernel p = Some g \<Longrightarrow> dispatch p = Some (KernelHandler, [], g)"
  using kclass_kernel [of p g]
  by (simp add: dispatch_def handlers_routes kpath_early_None match_kpath(2) kclass_None)

lemma dispatch_action:
  "url_match route_action p = Some g \<Longrightarrow> dispatch p = Some (KernelActionHandler, [], g)"
  using kclass_action [of p g]
  by (simp add: dispatch_def handlers_routes kpath_early_None match_kpath(3) kclass_None)

lemma dispatch_iopub:
  "url_match route_iopub p = Some g \<Longrightarrow>
     dispatch p = Some (ZMQStreamHandler, [(''stream_name'', ''iopub'')], g)"
  using kclass_iopub [of p g]
  by (simp add: dispatch_def handlers_routes kpath_early_None match_kpath(4) kclass_None)

lemma dispatch_shell:
  "url_match route_shell p = Some g \<Longrightarrow>
     dispatch p = Some (ZMQStreamHandler, [(''stream_name'', ''shell'')], g)"
  using kclass_shell [of p g]
  by (simp add: dispatch_def handlers_routes kpath_early_None match_kpath(5) kclass_None)

lemma dispatch_action_iff:
  "dispatch p = Some (KernelActionHandler, i, g) \<longleftrightarrow> i = [] \<and> url_match route_action p = Some g"
proof
  assume "dispatch p = Some (KernelActionHandler, i, g)"
  from find_handler_Some [OF this [unfolded dispatch_def]]
  show "i = [] \<and> url_match route_action p = Some g"
    by (auto simp: handlers_routes)
next
  assume "i = [] \<and> url_match route_action p = Some g"
  then show "dispatch p = Some (KernelActionHandler, i, g)"
    by (simp add: dispatch_action)
qed

lemma dispatch_kernel_iff:
  "dispatch p = Some (KernelHandler, i, g) \<longleftrightarrow> i = [] \<and> url_match route_kernel p = Some g"
proof
  assume "dispatch p = Some (KernelHandler, i, g)"
  from find_handler_Some [OF this [unfolded dispatch_def]]
  show "i = [] \<and> url_match route_kernel p = Some g"
    by (auto simp: handlers_routes)
next
  assume "i = [] \<and> url_match route_kernel p = Some g"
  then show "dispatch p = Some (KernelHandler, i, g)"
    by (simp add: dispatch_kernel)
qed

lemma dispatch_stream_iff:
  "dispatch p = Some (ZMQStreamHandler, i, g) \<longleftrightarrow>
     (i = [(''stream_name'', ''iopub'')] \<and> url_match route_iopub p = Some g) \<or>
     (i = [(''stream_name'', ''shell'')] \<and> url_match route_shell p = Some g)"
proof
  assume "dispatch p = Some (ZMQStreamHandler, i, g)"
  from find_handler_Some [OF this [unfolded dispatch_def]]
  show "(i = [(''stream_name'', ''iopub'')] \<and> url_match route_iopub p = Some g) \<or>
     (i = [(''stream_name'', ''shell'')] \<and> url_match route_shell p = Some g)"
    by (auto simp: handlers_routes)
next
  assume "(i = [(''stream_name'', ''iopub'')] \<and> url_match route_iopub p = Some g) \<or>
     (i = [(''stream_name'', ''shell'')] \<and> url_match route_shell p = Some g)"
  then show "dispatch p = Some (ZMQStreamHandler, i, g)"
    by (auto simp: dispatch_iopub dispatch_shell)
qed

section \<open>Properties of the router\<close>

lemma is_hex_word: "is_hex c \<Longrightarrow> is_word c"
  by (auto simp: is_hex_def is_word_def word_chars_def)

lemma hex_run_word: "hex_run n u \<Longrightarrow> 0 < n \<Longrightarrow> word_run u"
  by (auto simp: hex_run_def word_run_def list_all_iff is_hex_word)

lemma spec_uuid_shape:
  assumes "spec_uuid s"
  shows "id_shape s"
proof -
  define a b c d e where "a = take 8 s" and "b = take 4 (drop 9 s)" and "c = take 4 (drop 14 s)"
    and "d = take 4 (drop 19 s)" and "e = drop 24 s"
  from assms have "s = a @ ''-'' @ b @ ''-'' @ c @ ''-'' @ d @ ''-'' @ e"
    and "hex_run 8 a" "hex_run 4 b" "hex_run 4 c" "hex_run 4 d" "hex_run 12 e"
    unfolding spec_uuid_def Let_def a_def b_def c_def d_def e_def by blast+
  then have "s = a @ ''-'' @ b @ ''-'' @ c @ ''-'' @ d @ ''-'' @ e \<and>
      word_run a \<and> word_run b \<and> word_run c \<and> word_run d \<and> word_run e"
    by (simp add: hex_run_word)
  then show ?thesis
    unfolding id_shape_def by blast
qed

lemma path_split_eq:
  assumes "id_shape kid" "id_shape k" "sep_tail t" "sep_tail t'"
    and "''/kernels/'' @ kid @ t = ''/kernels/'' @ k @ t'"
  shows "kid = k" and "t = t'"
proof -
  from assms(5) have e: "kid @ t = k @ t'"
    by simp
  note a = split_at_tail [OF id_shape_idchar [OF assms(1)] assms(3)]
  note b = split_at_tail [OF id_shape_idchar [OF assms(2)] assms(4)]
  from a(1) b(1) e show "kid = k"
    by simp
  from a(2) b(2) e show "t = t'"
    by simp
qed

lemma action_path_iff:
  assumes "id_shape kid"
  shows "url_match route_action (''/kernels/'' @ kid @ ''/'' @ act) = Some g \<longleftrightarrow>
     (\<exists>a rest. act = a @ rest \<and> (a = ''restart'' \<or> a = ''interrupt'') \<and> at_end rest \<and>
        g = [(''kernel_id'', kid), (''action'', a)])"
  (is "?L \<longleftrightarrow> ?R")
proof
  assume ?L
  then obtain k a rest where
    *: "''/kernels/'' @ kid @ ''/'' @ act = ''/kernels/'' @ k @ ''/'' @ a @ rest" "id_shape k"
      "a = ''restart'' \<or> a = ''interrupt''" "at_end rest"
      "g = [(''kernel_id'', k), (''action'', a)]"
    unfolding route_action_iff by blast
  have s: "sep_tail (''/'' @ act)" "sep_tail (''/'' @ a @ rest)"
    by (simp_all add: sep_tail_slash)
  from path_split_eq [OF assms *(2) s *(1)] have "kid = k" "act = a @ rest"
    by simp_all
  with * show ?R
    by blast
next
  assume ?R
  then obtain a rest where
    "act = a @ rest" "a = ''restart'' \<or> a = ''interrupt''" "at_end rest"
    "g = [(''kernel_id'', kid), (''action'', a)]"
    by blast
  with assms have "''/kernels/'' @ kid @ ''/'' @ act = ''/kernels/'' @ kid @ ''/'' @ a @ rest \<and>
      id_shape kid \<and> (a = ''restart'' \<or> a = ''interrupt'') \<and> at_end rest \<and>
      g = [(''kernel_id'', kid), (''action'', a)]"
    by simp
  then show ?L
    unfolding route_action_iff by blast
qed

lemma action_suffix_cases:
  "(\<exists>a rest. act = a @ rest \<and> (a = ''restart'' \<or> a = ''interrupt'') \<and> at_end rest \<and>
        g = [(''kernel_id'', kid), (''action'', a)]) \<longleftrightarrow>
   (act = ''restart'' \<or> act = ''restart'' @ [CHR 0x0A]) \<and>
       g = [(''kernel_id'', kid), (''action'', ''restart'')] \<or>
   (act = ''interrupt'' \<or> act = ''interrupt'' @ [CHR 0x0A]) \<and>
       g = [(''kernel_id'', kid), (''action'', ''interrupt'')]"
  unfolding at_end_def by auto

lemma stream_path_iff:
  assumes "id_shape kid"
  shows "url_match (Seq (Lit ''/kernels/'') (Seq kernel_id_regex (Lit (CHR ''/'' # s))))
           (''/kernels/'' @ kid @ ''/'' @ name) = Some g \<longleftrightarrow>
     (\<exists>rest. name = s @ rest \<and> at_end rest) \<and> g = [(''kernel_id'', kid)]"
  (is "?L \<longleftrightarrow> ?R")
proof
  assume ?L
  then obtain k rest where
    *: "''/kernels/'' @ kid @ ''/'' @ name = ''/kernels/'' @ k @ (CHR ''/'' # s) @ rest"
      "id_shape k" "at_end rest" "g = [(''kernel_id'', k)]"
    unfolding route_stream_iff by blast
  have s: "sep_tail (''/'' @ name)" "sep_tail ((CHR ''/'' # s) @ rest)"
    by (simp_all add: sep_tail_slash)
  from path_split_eq [OF assms *(2) s *(1)] have "kid = k" "name = s @ rest"
    by simp_all
  with * show ?R
    by blast
next
  assume ?R
  then obtain rest where "name = s @ rest" "at_end rest" "g = [(''kernel_id'', kid)]"
    by blast
  with assms have "''/kernels/'' @ kid @ ''/'' @ name = ''/kernels/'' @ kid @ (CHR ''/'' # s) @ rest \<and>
      id_shape kid \<and> at_end rest \<and> g = [(''kernel_id'', kid)]"
    by simp
  then show ?L
    unfolding route_stream_iff by blast
qed

lemma iopub_path_iff:
  "id_shape kid \<Longrightarrow> url_match route_iopub (''/kernels/'' @ kid @ ''/'' @ name) = Some g \<longleftrightarrow>
     (name = ''iopub'' \<or> name = ''iopub'' @ [CHR 0x0A]) \<and> g = [(''kernel_id'', kid)]"
  unfolding route_iopub_def using stream_path_iff [of kid "''iopub''" name g]
  by (auto simp: at_end_def)

lemma shell_path_iff:
  "id_shape kid \<Longrightarrow> url_match route_shell (''/kernels/'' @ kid @ ''/'' @ name) = Some g \<longleftrightarrow>
     (name = ''shell'' \<or> name = ''shell'' @ [CHR 0x0A]) \<and> g = [(''kernel_id'', kid)]"
  unfolding route_shell_def using stream_path_iff [of kid "''shell''" name g]
  by (auto simp: at_end_def)

lemma kernel_path_iff:
  "dispatch p = Some (KernelHandler, i, g) \<longleftrightarrow>
     i = [] \<and> (\<exists>k. id_shape k \<and> (p = ''/kernels/'' @ k \<or> p = ''/kernels/'' @ k @ [CHR 0x0A]) \<and>
                   g = [(''kernel_id'', k)])"
  unfolding dispatch_kernel_iff route_kernel_iff at_end_def by auto

text \<open>
  Claim C2, as the spec states it: for a path \<open>/kernels/<id>/<action>\<close> whose \<open><id>\<close>
  matches the kernel-identity pattern, the router dispatches to \<open>KernelActionHandler\<close>
  if and only if \<open><action>\<close> is exactly \<open>restart\<close> or exactly \<open>interrupt\<close>. This fails
  for the action \<open>restart\<close> followed by a line feed: the \<open>$\<close> that ends the pattern
  matches before a final line feed, and the request goes to the action handler.
\<close>

theorem action_route_exact_counterexample:
  "fullmatch kernel_id_regex ''a-b-c-d-e'' \<and>
   \<not> (map_option fst (dispatch (''/kernels/'' @ ''a-b-c-d-e'' @ ''/'' @ (''restart'' @ [CHR 0x0A])))
          = Some KernelActionHandler
       \<longleftrightarrow> ''restart'' @ [CHR 0x0A] = ''restart'' \<or> ''restart'' @ [CHR 0x0A] = ''interrupt'')"
  by code_simp

text \<open>
  Claim C2, amended: for a path \<open>/kernels/<id>/<action>\<close> whose \<open><id>\<close> matches the
  kernel-identity pattern, the router dispatches to \<open>KernelActionHandler\<close> if and only if
  \<open><action>\<close> is \<open>restart\<close> or \<open>interrupt\<close>, alone or followed by one final line feed;
  no other action string is routed to it, and the action handed to the handler is
  always exactly \<open>restart\<close> or exactly \<open>interrupt\<close>.
\<close>

theorem action_route_dispatch:
  assumes "fullmatch kernel_id_regex kid"
  shows "(map_option fst (dispatch (''/kernels/'' @ kid @ ''/'' @ act)) = Some KernelActionHandler
           \<longleftrightarrow> act = ''restart'' \<or> act = ''interrupt'' \<or>
               act = ''restart'' @ [CHR 0x0A] \<or> act = ''interrupt'' @ [CHR 0x0A]) \<and>
         (dispatch (''/kernels/'' @ kid @ ''/'' @ act) = Some (KernelActionHandler, i, g)
           \<longleftrightarrow> i = [] \<and>
               ((act = ''restart'' \<or> act = ''restart'' @ [CHR 0x0A]) \<and>
                  g = [(''kernel_id'', kid), (''action'', ''restart'')] \<or>
                (act = ''interrupt'' \<or> act = ''interrupt'' @ [CHR 0x0A]) \<and>
                  g = [(''kernel_id'', kid), (''action'', ''interrupt'')]))"
proof -
  from assms have k: "id_shape kid"
    by (simp add: fullmatch_kernel_id)
  have b: "dispatch (''/kernels/'' @ kid @ ''/'' @ act) = Some (KernelActionHandler, i, g)
           \<longleftrightarrow> i = [] \<and>
               ((act = ''restart'' \<or> act = ''restart'' @ [CHR 0x0A]) \<and>
                  g = [(''kernel_id'', kid), (''action'', ''restart'')] \<or>
                (act = ''interrupt'' \<or> act = ''interrupt'' @ [CHR 0x0A]) \<and>
                  g = [(''kernel_id'', kid), (''action'', ''interrupt'')])" for i g
    unfolding dispatch_action_iff action_path_iff [OF k] action_suffix_cases ..
  have "map_option fst (dispatch (''/kernels/'' @ kid @ ''/'' @ act)) = Some KernelActionHandler
      \<longleftrightarrow> (\<exists>i g. dispatch (''/kernels/'' @ kid @ ''/'' @ act) = Some (KernelActionHandler, i, g))"
    by (cases "dispatch (''/kernels/'' @ kid @ ''/'' @ act)") auto
  also have "\<dots> \<longleftrightarrow> act = ''restart'' \<or> act = ''interrupt'' \<or>
               act = ''restart'' @ [CHR 0x0A] \<or> act = ''interrupt'' @ [CHR 0x0A]"
    unfolding b by blast
  finally have a: "map_option fst (dispatch (''/kernels/'' @ kid @ ''/'' @ act))
        = Some KernelActionHandler
      \<longleftrightarrow> act = ''restart'' \<or> act = ''interrupt'' \<or>
          act = ''restart'' @ [CHR 0x0A] \<or> act = ''interrupt'' @ [CHR 0x0A]" .
  from a b show ?thesis ..
qed

theorem action_route_dispatch_witness:
  "fullmatch kernel_id_regex ''6f9619ff-8b86-d011-b42d-00c04fc964ff'' \<and>
   dispatch ''/kernels/6f9619ff-8b86-d011-b42d-00c04fc964ff/interrupt''
     = Some (KernelActionHandler, [],
         [(''kernel_id'', ''6f9619ff-8b86-d011-b42d-00c04fc964ff''), (''action'', ''interrupt'')]) \<and>
   map_option fst (dispatch ''/kernels/6f9619ff-8b86-d011-b42d-00c04fc964ff/stop'')
     \<noteq> Some KernelActionHandler"
proof -
  have h: "fullmatch kernel_id_regex ''6f9619ff-8b86-d011-b42d-00c04fc964ff''"
    by code_simp
  from action_route_dispatch [OF h, of "''interrupt''" "[]"
      "[(''kernel_id'', ''6f9619ff-8b86-d011-b42d-00c04fc964ff''), (''action'', ''interrupt'')]"]
    action_route_dispatch [OF h, of "''stop''"] h
  show ?thesis
    by simp
qed

text \<open>
  Claim C3. For every kernel identity the application exposes exactly two channel
  stream endpoints, both handled by \<open>ZMQStreamHandler\<close>: \<open>/kernels/<id>/iopub\<close> with the
  stream name \<open>iopub\<close> (the broadcast channel) and \<open>/kernels/<id>/shell\<close> with the
  stream name \<open>shell\<close> (the control channel). No other stream name reaches a stream
  handler: the handler list holds these two entries for it and no third, every request
  it receives carries one of the two names, and a path \<open>/kernels/<id>/<name>\<close> reaches
  it only when \<open><name>\<close> is that stream name (alone or before one final line feed).
\<close>

theorem stream_endpoints:
  assumes "fullmatch kernel_id_regex kid"
  shows "dispatch (''/kernels/'' @ kid @ ''/iopub'')
           = Some (ZMQStreamHandler, [(''stream_name'', ''iopub'')], [(''kernel_id'', kid)]) \<and>
         dispatch (''/kernels/'' @ kid @ ''/shell'')
           = Some (ZMQStreamHandler, [(''stream_name'', ''shell'')], [(''kernel_id'', kid)]) \<and>
         (dispatch (''/kernels/'' @ kid @ ''/'' @ name) = Some (ZMQStreamHandler, i, g) \<longleftrightarrow>
            g = [(''kernel_id'', kid)] \<and>
            (i = [(''stream_name'', ''iopub'')] \<and>
               (name = ''iopub'' \<or> name = ''iopub'' @ [CHR 0x0A]) \<or>
             i = [(''stream_name'', ''shell'')] \<and>
               (name = ''shell'' \<or> name = ''shell'' @ [CHR 0x0A]))) \<and>
         (\<forall>p j h. dispatch p = Some (ZMQStreamHandler, j, h) \<longrightarrow>
            j = [(''stream_name'', ''iopub'')] \<or> j = [(''stream_name'', ''shell'')]) \<and>
         map snd (filter (\<lambda>(r, h, j). h = ZMQStreamHandler) handlers)
           = [(ZMQStreamHandler, [(''stream_name'', ''iopub'')]),
              (ZMQStreamHandler, [(''stream_name'', ''shell'')])]"
proof -
  from assms have k: "id_shape kid"
    by (simp add: fullmatch_kernel_id)
  have a: "dispatch (''/kernels/'' @ kid @ ''/'' @ name) = Some (ZMQStreamHandler, i, g) \<longleftrightarrow>
            g = [(''kernel_id'', kid)] \<and>
            (i = [(''stream_name'', ''iopub'')] \<and>
               (name = ''iopub'' \<or> name = ''iopub'' @ [CHR 0x0A]) \<or>
             i = [(''stream_name'', ''shell'')] \<and>
               (name = ''shell'' \<or> name = ''shell'' @ [CHR 0x0A]))" for name i g
    unfolding dispatch_stream_iff iopub_path_iff [OF k] shell_path_iff [OF k] by blast
  have b: "dispatch (''/kernels/'' @ kid @ ''/iopub'')
           = Some (ZMQStreamHandler, [(''stream_name'', ''iopub'')], [(''kernel_id'', kid)])"
    using a [of "''iopub''" "[(''stream_name'', ''iopub'')]" "[(''kernel_id'', kid)]"] by simp
  have c: "dispatch (''/kernels/'' @ kid @ ''/shell'')
           = Some (ZMQStreamHandler, [(''stream_name'', ''shell'')], [(''kernel_id'', kid)])"
    using a [of "''shell''" "[(''stream_name'', ''shell'')]" "[(''kernel_id'', kid)]"] by simp
  have d: "\<forall>p j h. dispatch p = Some (ZMQStreamHandler, j, h) \<longrightarrow>
            j = [(''stream_name'', ''iopub'')] \<or> j = [(''stream_name'', ''shell'')]"
    unfolding dispatch_stream_iff by blast
  have e: "map snd (filter (\<lambda>(r, h, j). h = ZMQStreamHandler) handlers)
           = [(ZMQStreamHandler, [(''stream_name'', ''iopub'')]),
              (ZMQStreamHandler, [(''stream_name'', ''shell'')])]"
    by (simp add: handlers_def)
  from a b c d e show ?thesis
    by blast
qed

theorem stream_endpoints_witness:
  "fullmatch kernel_id_regex ''6f9619ff-8b86-d011-b42d-00c04fc964ff'' \<and>
   dispatch ''/kernels/6f9619ff-8b86-d011-b42d-00c04fc964ff/iopub''
     = Some (ZMQStreamHandler, [(''stream_name'', ''iopub'')],
             [(''kernel_id'', ''6f9619ff-8b86-d011-b42d-00c04fc964ff'')]) \<and>
   dispatch ''/kernels/6f9619ff-8b86-d011-b42d-00c04fc964ff/shell''
     = Some (ZMQStreamHandler, [(''stream_name'', ''shell'')],
             [(''kernel_id'', ''6f9619ff-8b86-d011-b42d-00c04fc964ff'')])"
proof -
  have h: "fullmatch kernel_id_regex ''6f9619ff-8b86-d011-b42d-00c04fc964ff''"
    by code_simp
  from stream_endpoints [OF h] h show ?thesis
    by simp
qed

text \<open>
  Claim C4, as the spec states it: a path segment is routed as a kernel identity if and
  only if it is a UUID-form string. This fails for \<open>a-b-c-d-e\<close>, which is not of UUID
  form and is routed to \<open>KernelHandler\<close>.
\<close>

theorem kernel_id_uuid_only_counterexample:
  "\<not> (map_option fst (dispatch (''/kernels/'' @ ''a-b-c-d-e'')) = Some KernelHandler
        \<longleftrightarrow> spec_uuid ''a-b-c-d-e'')"
  by code_simp

text \<open>
  Claim C4, amended: the kernel-identity pattern accepts every UUID-form string, and it
  accepts precisely the strings made of five non-empty runs of word characters
  (letters, digits, underscore) separated by single hyphens, so strings of that form
  that are no UUIDs are accepted too. Every accepted string is routed as a kernel
  identity, and whatever \<open>KernelHandler\<close> receives as \<open>kernel_id\<close> is an accepted string,
  namely the path after \<open>/kernels/\<close> without a final line feed.
\<close>

theorem kernel_id_accepts:
  "(spec_uuid s \<longrightarrow> fullmatch kernel_id_regex s) \<and>
   (fullmatch kernel_id_regex s \<longleftrightarrow>
      (\<exists>a b c d e. s = a @ ''-'' @ b @ ''-'' @ c @ ''-'' @ d @ ''-'' @ e \<and>
         word_run a \<and> word_run b \<and> word_run c \<and> word_run d \<and> word_run e)) \<and>
   (fullmatch kernel_id_regex s \<longrightarrow>
      dispatch (''/kernels/'' @ s) = Some (KernelHandler, [], [(''kernel_id'', s)])) \<and>
   (dispatch p = Some (KernelHandler, i, g) \<longrightarrow>
      (\<exists>k. fullmatch kernel_id_regex k \<and> g = [(''kernel_id'', k)] \<and>
           (p = ''/kernels/'' @ k \<or> p = ''/kernels/'' @ k @ [CHR 0x0A])))"
proof -
  have a: "spec_uuid s \<longrightarrow> fullmatch kernel_id_regex s"
    by (simp add: fullmatch_kernel_id spec_uuid_shape)
  have b: "fullmatch kernel_id_regex s \<longleftrightarrow>
      (\<exists>a b c d e. s = a @ ''-'' @ b @ ''-'' @ c @ ''-'' @ d @ ''-'' @ e \<and>
         word_run a \<and> word_run b \<and> word_run c \<and> word_run d \<and> word_run e)"
    unfolding fullmatch_kernel_id id_shape_def ..
  have c: "fullmatch kernel_id_regex s \<longrightarrow>
      dispatch (''/kernels/'' @ s) = Some (KernelHandler, [], [(''kernel_id'', s)])"
    unfolding kernel_path_iff fullmatch_kernel_id by auto
  have d: "dispatch p = Some (KernelHandler, i, g) \<longrightarrow>
      (\<exists>k. fullmatch kernel_id_regex k \<and> g = [(''kernel_id'', k)] \<and>
           (p = ''/kernels/'' @ k \<or> p = ''/kernels/'' @ k @ [CHR 0x0A]))"
    unfolding kernel_path_iff fullmatch_kernel_id by blast
  from a b c d show ?thesis
    by blast
qed

theorem kernel_id_accepts_witness:
  "spec_uuid ''6f9619ff-8b86-d011-b42d-00c04fc964ff'' \<and>
   fullmatch kernel_id_regex ''6f9619ff-8b86-d011-b42d-00c04fc964ff'' \<and>
   dispatch ''/kernels/6f9619ff-8b86-d011-b42d-00c04fc964ff''
     = Some (KernelHandler, [], [(''kernel_id'', ''6f9619ff-8b86-d011-b42d-00c04fc964ff'')])"
proof -
  have h: "spec_uuid ''6f9619ff-8b86-d011-b42d-00c04fc964ff''"
    by code_simp
  from kernel_id_accepts [of "''6f9619ff-8b86-d011-b42d-00c04fc964ff''"] h show ?thesis
    by simp
qed

text \<open>
  Claim C5. Dispatch over the kernel family is unambiguous: for every request path at
  most one of the five kernel routes (\<open>/kernels\<close>, the kernel path, the action path and
  the two stream paths) matches, and a kernel route that matches is the one whose
  handler the request is dispatched to; so a request is handled by one handler or none.
\<close>

theorem kernel_routes_unambiguous:
  "length (filter (\<lambda>(r, h, i). url_match r p \<noteq> None) kernel_routes) \<le> 1 \<and>
   (\<forall>(r, h, i) \<in> set kernel_routes.
      \<forall>g. url_match r p = Some g \<longrightarrow> dispatch p = Some (h, i, g))"
proof -
  have t: "kernel_routes =
     [(route_kernels, MainKernelHandler, []),
      (route_kernel, KernelHandler, []),
      (route_action, KernelActionHandler, []),
      (route_iopub, ZMQStreamHandler, [(''stream_name'', ''iopub'')]),
      (route_shell, ZMQStreamHandler, [(''stream_name'', ''shell'')])]"
    by (simp add: kernel_routes_def handlers_routes)
  have "kclass p = 0 \<or> kclass p = 1 \<or> kclass p = 2 \<or> kclass p = 3 \<or> kclass p = 4 \<or>
      kclass p = 5"
    by (simp add: kclass_def)
  then have a: "length (filter (\<lambda>(r, h, i). url_match r p \<noteq> None) kernel_routes) \<le> 1"
    unfolding t by (elim disjE) (simp_all add: kclass_None)
  have b: "\<forall>(r, h, i) \<in> set kernel_routes.
      \<forall>g. url_match r p = Some g \<longrightarrow> dispatch p = Some (h, i, g)"
    unfolding t
    by (simp add: dispatch_kernels dispatch_kernel dispatch_action dispatch_iopub dispatch_shell)
  from a b show ?thesis ..
qed

theorem kernel_routes_unambiguous_witness:
  "filter (\<lambda>(r, h, i). url_match r ''/kernels/a-b-c-d-e/iopub'' \<noteq> None) kernel_routes
     = [(Seq (Lit ''/kernels/'') (Seq kernel_id_regex (Lit ''/iopub'')), ZMQStreamHandler,
         [(''stream_name'', ''iopub'')])] \<and>
   dispatch ''/kernels/a-b-c-d-e/iopub''
     = Some (ZMQStreamHandler, [(''stream_name'', ''iopub'')], [(''kernel_id'', ''a-b-c-d-e'')])"
proof -
  have m: "url_match (Seq (Lit ''/kernels/'') (Seq kernel_id_regex (Lit ''/iopub'')))
      ''/kernels/a-b-c-d-e/iopub'' = Some [(''kernel_id'', ''a-b-c-d-e'')]"
    by code_simp
  have f: "filter (\<lambda>(r, h, i). url_match r ''/kernels/a-b-c-d-e/iopub'' \<noteq> None)
      kernel_routes
     = [(Seq (Lit ''/kernels/'') (Seq kernel_id_regex (Lit ''/iopub'')), ZMQStreamHandler,
         [(''stream_name'', ''iopub'')])]"
    by code_simp
  have i: "(Seq (Lit ''/kernels/'') (Seq kernel_id_regex (Lit ''/iopub'')), ZMQStreamHandler,
         [(''stream_name'', ''iopub'')]) \<in> set kernel_routes"
    by (simp add: kernel_routes_def handlers_def)
  from kernel_routes_unambiguous [of "''/kernels/a-b-c-d-e/iopub''"] i m
  have "dispatch ''/kernels/a-b-c-d-e/iopub''
     = Some (ZMQStreamHandler, [(''stream_name'', ''iopub'')], [(''kernel_id'', ''a-b-c-d-e'')])"
    by blast
  with f show ?thesis ..
qed

section \<open>Bridges follow the life of their kernels\<close>

lemma fenced_grow:
  "bridges_fenced s \<Longrightarrow> bridges_fenced (s\<lparr>live := insert k (live s), issued := n\<rparr>)"
  by (auto simp: bridges_fenced_def)

lemma fenced_routing: "bridges_fenced (s\<lparr>routing := r\<rparr>) = bridges_fenced s"
  by (simp add: bridges_fenced_def)

lemma fenced_start: "bridges_fenced s \<Longrightarrow> bridges_fenced (snd (start l s))"
  by (simp add: start_def fenced_grow)

lemma mark_stale_Some:
  "mark_stale k bs c = Some b \<Longrightarrow>
     \<exists>b0. bs c = Some b0 \<and> b_kernel b = b_kernel b0 \<and>
          (terminal (b_state b0) \<longrightarrow> b = b0) \<and>
          (b_kernel b0 = k \<longrightarrow> terminal (b_state b))"
  by (auto simp: mark_stale_def terminal_def split: option.splits if_splits)

lemma stop_terminates:
  "bridges (stop k s) c = Some b \<Longrightarrow> b_kernel b = k \<Longrightarrow> k \<in> live s \<Longrightarrow> terminal (b_state b)"
  by (auto simp: stop_def dest: mark_stale_Some)

lemma fenced_stop: "bridges_fenced s \<Longrightarrow> bridges_fenced (stop k s)"
  unfolding bridges_fenced_def stop_def
  by (auto dest!: mark_stale_Some)

lemma fenced_leave: "bridges_fenced s \<Longrightarrow> bridges_fenced (leave st c s)"
  by (auto simp: bridges_fenced_def leave_def split: option.splits)

lemma fenced_attach: "bridges_fenced s \<Longrightarrow> bridges_fenced (snd (attach k ch s))"
  by (auto simp: bridges_fenced_def attach_def)

lemma fenced_start_bind:
  "bridges_fenced s \<Longrightarrow>
   bridges_fenced (snd (case start l s of
       (Inl e, s1) \<Rightarrow> (Inl e, s1)
     | (Inr k, s1) \<Rightarrow> (Inr k, s1\<lparr>routing := (nb, k) # routing s1\<rparr>)))"
  by (simp add: start_def fenced_grow fenced_routing)

lemma fenced_resolve: "bridges_fenced s \<Longrightarrow> bridges_fenced (snd (resolve nb l s))"
  unfolding resolve_def
  by (cases "map_of (routing s) nb") (simp_all add: fenced_start_bind)

lemma fenced_rebind: "bridges_fenced s \<Longrightarrow> bridges_fenced (snd (rebind nb l s))"
  unfolding rebind_def Let_def
  by (cases "map_of (routing s) nb") (simp_all add: fenced_start_bind fenced_stop fenced_routing)

lemma fenced_release: "bridges_fenced s \<Longrightarrow> bridges_fenced (snd (release nb s))"
  unfolding release_def
  by (cases "map_of (routing s) nb") (simp_all add: fenced_stop fenced_routing)

lemma fenced_restart: "bridges_fenced s \<Longrightarrow> bridges_fenced (snd (restart k l s))"
  unfolding restart_def
  by (simp add: fenced_rebind fenced_start fenced_stop split: option.split)

lemma fenced_shutdown: "bridges_fenced s \<Longrightarrow> bridges_fenced (snd (shutdown k s))"
  unfolding shutdown_def
  by (simp add: fenced_stop fenced_routing)

lemma fenced_step: "bridges_fenced s \<Longrightarrow> bridges_fenced (step s e)"
  by (cases e)
    (simp_all add: fenced_resolve fenced_rebind fenced_release fenced_start fenced_restart
      fenced_shutdown fenced_attach fenced_leave interrupt_def close_connection_def
      protocol_error_def)

lemma fenced_foldl: "bridges_fenced s \<Longrightarrow> bridges_fenced (foldl step s es)"
  by (induction es arbitrary: s) (simp_all add: fenced_step)

lemma fenced_run: "bridges_fenced (run es)"
  unfolding run_def by (rule fenced_foldl) (simp add: bridges_fenced_def init_system_def)

lemma live_leave: "live (leave st c s) = live s"
  by (simp add: leave_def split: option.split)

lemma stop_fences:
  assumes "bridges_fenced s" and "bridges (stop k s) c = Some b" and "b_kernel b = k"
  shows "terminal (b_state b)"
proof (cases "k \<in> live s")
  case True
  with assms(2,3) show ?thesis
    by (rule stop_terminates)
next
  case False
  with assms show ?thesis
    by (simp add: stop_def bridges_fenced_def)
qed

lemma live_stop: "live (stop k s) = live s - {k}"
  by (auto simp: stop_def)

lemma issued_stop_unbind:
  "ids_issued s \<Longrightarrow> set r \<subseteq> set (routing s) \<Longrightarrow> ids_issued ((stop k s)\<lparr>routing := r\<rparr>)"
  by (auto simp: ids_issued_def stop_def)

lemma issued_stop: "ids_issued s \<Longrightarrow> ids_issued (stop k s)"
  by (auto simp: ids_issued_def stop_def)

lemma issued_start: "ids_issued s \<Longrightarrow> ids_issued (snd (start l s))"
  by (auto simp: ids_issued_def start_def less_Suc_eq)

lemma issued_start_bind:
  "ids_issued s \<Longrightarrow>
   ids_issued (snd (case start l s of
       (Inl e, s1) \<Rightarrow> (Inl e, s1)
     | (Inr k, s1) \<Rightarrow> (Inr k, s1\<lparr>routing := (nb, k) # routing s1\<rparr>)))"
  by (auto simp: start_def ids_issued_def less_Suc_eq)

lemma issued_resolve: "ids_issued s \<Longrightarrow> ids_issued (snd (resolve nb l s))"
  unfolding resolve_def
  by (cases "map_of (routing s) nb") (simp_all add: issued_start_bind)

lemma issued_rebind: "ids_issued s \<Longrightarrow> ids_issued (snd (rebind nb l s))"
  unfolding rebind_def Let_def
  by (cases "map_of (routing s) nb")
    (simp_all add: issued_start_bind issued_stop_unbind unbind_def)

lemma issued_release: "ids_issued s \<Longrightarrow> ids_issued (snd (release nb s))"
  unfolding release_def
  by (cases "map_of (routing s) nb") (simp_all add: issued_stop_unbind unbind_def)

lemma issued_restart: "ids_issued s \<Longrightarrow> ids_issued (snd (restart k l s))"
  unfolding restart_def
  by (simp add: issued_rebind issued_start issued_stop split: option.split)

lemma issued_shutdown: "ids_issued s \<Longrightarrow> ids_issued (snd (shutdown k s))"
  unfolding shutdown_def
  by (simp add: issued_stop_unbind)

lemma issued_attach: "ids_issued s \<Longrightarrow> ids_issued (snd (attach k ch s))"
  by (auto simp: ids_issued_def attach_def)

lemma issued_leave: "ids_issued s \<Longrightarrow> ids_issued (leave st c s)"
  by (auto simp: ids_issued_def leave_def split: option.splits)

lemma issued_step: "ids_issued s \<Longrightarrow> ids_issued (step s e)"
  by (cases e)
    (simp_all add: issued_resolve issued_rebind issued_release issued_start issued_restart
      issued_shutdown issued_attach issued_leave interrupt_def close_connection_def
      protocol_error_def)

lemma issued_foldl: "ids_issued s \<Longrightarrow> ids_issued (foldl step s es)"
  by (induction es arbitrary: s) (simp_all add: issued_step)

lemma issued_run: "ids_issued (run es)"
  unfolding run_def by (rule issued_foldl) (simp add: ids_issued_def init_system_def)

lemma stopped_then_started:
  assumes "k < issued s"
  shows "k \<notin> live (snd (start l (stop k s)))"
    and "k \<notin> live (snd (case start l ((stop k s)\<lparr>routing := r\<rparr>) of
       (Inl e, s1) \<Rightarrow> (Inl e, s1)
     | (Inr k', s1) \<Rightarrow> (Inr k', s1\<lparr>routing := (nb, k') # routing s1\<rparr>)))"
  using assms by (auto simp: start_def stop_def)

lemma routed_issued:
  assumes "ids_issued s" and "map_of (routing s) nb = Some k"
  shows "k < issued s"
proof -
  from assms(2) have "(nb, k) \<in> set (routing s)"
    by (rule map_of_SomeD)
  then have "k \<in> snd ` set (routing s)"
    by force
  with assms(1) show ?thesis
    by (simp add: ids_issued_def)
qed

lemma rebind_not_live:
  assumes "ids_issued s" and "map_of (routing s) nb = Some k"
  shows "k \<notin> live (snd (rebind nb l s))"
  using assms(2) stopped_then_started(2) [OF routed_issued [OF assms]]
  by (simp add: rebind_def)

lemma restart_not_live:
  assumes "ids_issued s"
  shows "k \<notin> live (snd (restart k l s))"
proof (cases "k \<in> live s")
  case False
  then show ?thesis
    by (simp add: restart_def)
next
  case True
  show ?thesis
  proof (cases "find (\<lambda>nb. map_of (routing s) nb = Some k) (map fst (routing s))")
    case None
    from True assms have "k < issued s"
      by (simp add: ids_issued_def)
    with None True show ?thesis
      by (simp add: restart_def stopped_then_started(1))
  next
    case (Some nb)
    then have "map_of (routing s) nb = Some k"
      by (auto simp: find_Some_iff)
    from rebind_not_live [OF assms this] Some True show ?thesis
      by (simp add: restart_def)
  qed
qed

lemma shutdown_not_live: "k \<notin> live (snd (shutdown k s))"
  by (simp add: shutdown_def live_stop)

lemma release_not_live:
  "map_of (routing s) nb = Some k \<Longrightarrow> k \<notin> live (snd (release nb s))"
  by (simp add: release_def live_stop)

lemma fencedD:
  "bridges_fenced s \<Longrightarrow> bridges s c = Some b \<Longrightarrow> b_kernel b \<notin> live s \<Longrightarrow> terminal (b_state b)"
  by (simp add: bridges_fenced_def)

text \<open>
  Claim C7. In every reachable state, closing a client connection leaves the set of
  live kernels as it is, so it never terminates the kernel the connection was bridged
  to; and stopping a kernel (by \<open>stop\<close>, \<open>shutdown\<close> or \<open>release\<close>) or restarting it (by
  \<open>restart\<close> or \<open>rebind\<close>) leaves every Bridge bound to its identity in a terminal
  state. In every reachable state a Bridge bound to an identity that is not live is
  in a terminal state.
\<close>

theorem bridges_follow_kernels:
  "live (step (run es) (CloseConnection c)) = live (run es) \<and>
   (\<forall>c b. bridges (stop k (run es)) c = Some b \<and> b_kernel b = k \<longrightarrow> terminal (b_state b)) \<and>
   (\<forall>c b. bridges (step (run es) (Shutdown k)) c = Some b \<and> b_kernel b = k
        \<longrightarrow> terminal (b_state b)) \<and>
   (\<forall>c b. bridges (step (run es) (Restart k l)) c = Some b \<and> b_kernel b = k
        \<longrightarrow> terminal (b_state b)) \<and>
   (\<forall>c b. map_of (routing (run es)) nb = Some k \<and>
          bridges (step (run es) (Rebind nb l)) c = Some b \<and> b_kernel b = k
        \<longrightarrow> terminal (b_state b)) \<and>
   (\<forall>c b. map_of (routing (run es)) nb = Some k \<and>
          bridges (step (run es) (Release nb)) c = Some b \<and> b_kernel b = k
        \<longrightarrow> terminal (b_state b)) \<and>
   (\<forall>c b. bridges (run es) c = Some b \<and> b_kernel b \<notin> live (run es) \<longrightarrow> terminal (b_state b))"
proof -
  note f = fenced_run [of es] and i = issued_run [of es]
  have a: "live (step (run es) (CloseConnection c)) = live (run es)"
    by (simp add: close_connection_def live_leave)
  have b: "\<forall>c b. bridges (stop k (run es)) c = Some b \<and> b_kernel b = k \<longrightarrow> terminal (b_state b)"
    using stop_fences [OF f] by blast
  have c: "\<forall>c b. bridges (step (run es) (Shutdown k)) c = Some b \<and> b_kernel b = k
        \<longrightarrow> terminal (b_state b)"
    using fencedD [OF fenced_shutdown [OF f, of k]] shutdown_not_live [of k "run es"]
    by auto
  have d: "\<forall>c b. bridges (step (run es) (Restart k l)) c = Some b \<and> b_kernel b = k
        \<longrightarrow> terminal (b_state b)"
    using fencedD [OF fenced_restart [OF f, of k l]] restart_not_live [OF i, of k l]
    by auto
  have e: "\<forall>c b. map_of (routing (run es)) nb = Some k \<and>
          bridges (step (run es) (Rebind nb l)) c = Some b \<and> b_kernel b = k
        \<longrightarrow> terminal (b_state b)"
    using fencedD [OF fenced_rebind [OF f, of nb l]] rebind_not_live [OF i, of nb k l]
    by auto
  have g: "\<forall>c b. map_of (routing (run es)) nb = Some k \<and>
          bridges (step (run es) (Release nb)) c = Some b \<and> b_kernel b = k
        \<longrightarrow> terminal (b_state b)"
    using fencedD [OF fenced_release [OF f, of nb]] release_not_live [of "run es" nb k]
    by auto
  have h: "\<forall>c b. bridges (run es) c = Some b \<and> b_kernel b \<notin> live (run es) \<longrightarrow> terminal (b_state b)"
    using fencedD [OF f] by blast
  from a b c d e g h show ?thesis
    by blast
qed

theorem bridges_follow_kernels_witness:
  "bridges (step (run [Resolve ''nbA'' True, Attach 0 Broadcast]) (Restart 0 True)) 0
     = Some \<lparr>b_kernel = 0, b_channel = Broadcast, b_state = Stale\<rparr> \<and>
   terminal Stale \<and>
   live (step (run [Resolve ''nbA'' True, Attach 0 Broadcast]) (CloseConnection 0)) = {0}"
proof -
  have r: "run [Resolve ''nbA'' True, Attach 0 Broadcast] =
     \<lparr>live = {0}, issued = 1, routing = [(''nbA'', 0)],
      bridges = (\<lambda>_. None)(0 \<mapsto> \<lparr>b_kernel = 0, b_channel = Broadcast, b_state = Active\<rparr>),
      next_conn = 1\<rparr>"
    by (simp add: run_def init_system_def resolve_def start_def attach_def)
  have e: "bridges (step (run [Resolve ''nbA'' True, Attach 0 Broadcast]) (Restart 0 True)) 0
     = Some \<lparr>b_kernel = 0, b_channel = Broadcast, b_state = Stale\<rparr>"
    unfolding r
    by (simp add: restart_def rebind_def start_def stop_def unbind_def mark_stale_def
        terminal_def Let_def)
  from bridges_follow_kernels [of "[Resolve ''nbA'' True, Attach 0 Broadcast]" 0 0 True "''nbA''"]
  have t: "live (step (run [Resolve ''nbA'' True, Attach 0 Broadcast]) (CloseConnection 0))
        = live (run [Resolve ''nbA'' True, Attach 0 Broadcast])"
    and f: "\<forall>c b. bridges (step (run [Resolve ''nbA'' True, Attach 0 Broadcast]) (Restart 0 True)) c
          = Some b \<and> b_kernel b = 0 \<longrightarrow> terminal (b_state b)"
    by blast+
  from f e have "terminal Stale"
    by fastforce
  moreover from t have "live (step (run [Resolve ''nbA'' True, Attach 0 Broadcast]) (CloseConnection 0))
      = {0}"
    unfolding r by simp
  ultimately show ?thesis
    using e by blast
qed

end
